theory Spec2Isabelle
  imports Complex_Main
begin

section \<open>GridWorld MDP of app.js: grid, transition model, VI and PI steppers\<close>

text \<open>
  The embedding follows \<^verbatim>\<open>src/Assignment2_Web_JS/app.js\<close>.

  \<^item> A state key \<^verbatim>\<open>"r,c"\<close> (built by \<^verbatim>\<open>key(r,c)\<close>, taken apart by
    \<^verbatim>\<open>split(",").map(Number)\<close>) is the pair \<open>(r, c)\<close> of integers.
  \<^item> JavaScript numbers are idealised as \<open>real\<close>: rounding, infinities and NaN of IEEE
    doubles are outside the model. The sentinel \<^verbatim>\<open>-1e9\<close> is the real \<open>- 1000000000\<close>.
  \<^item> The tables \<^verbatim>\<open>V\<close>, \<^verbatim>\<open>policy\<close> and \<^verbatim>\<open>piPolicy\<close> are objects whose keys are
    the states of \<^verbatim>\<open>allStates()\<close>. \<^verbatim>\<open>V\<close> is a function \<open>state \<Rightarrow> real\<close>; the value \<open>0\<close> that the
    function has outside \<^verbatim>\<open>allStates()\<close> is never read by a sweep (lemmas
    \<open>nextStateDet_allStates\<close>, \<open>qValue_cong\<close>). A policy is a function
    \<open>state \<Rightarrow> action option\<close>, where \<open>None\<close> is \<^verbatim>\<open>null\<close> (or a missing key).
  \<^item> The values of the input elements (\<^verbatim>\<open>algoEl\<close>, \<^verbatim>\<open>gammaEl\<close>, \<^verbatim>\<open>slipEl\<close>,
    \<^verbatim>\<open>stepRewardEl\<close>, \<^verbatim>\<open>maxItersEl\<close>) are read anew inside every call; they are the
    record \<open>inputs\<close> that each operation takes as its first argument.
  \<^item> The module-level variables and the status text are the record \<open>run\<close>, passed in
    and returned updated. \<^verbatim>\<open>renderGrid\<close> only writes to the page and is left out.
  \<^item> The only exception a step can raise is the \<^verbatim>\<open>TypeError\<close> of destructuring
    \<^verbatim>\<open>MOVE[a]\<close> when \<^verbatim>\<open>a\<close> is not an action; it is the \<open>Inl\<close> branch of the result.
\<close>

subsection \<open>Grid constants and helpers\<close>

type_synonym state = "int \<times> int"

datatype action = U | D | L | R

definition NROWS :: int where
  "NROWS = 5"

definition NCOLS :: int where
  "NCOLS = 5"

definition WALLS :: "state list" where
  "WALLS = [(1, 1), (1, 2), (2, 2)]"

definition TERMINALS :: "(state \<times> real) list" where
  "TERMINALS = [((0, 4), 10), ((4, 4), - 10)]"

definition ACTIONS :: "action list" where
  "ACTIONS = [U, D, L, R]"

fun MOVE :: "action \<Rightarrow> int \<times> int" where
  "MOVE U = (- 1, 0)"
| "MOVE D = (1, 0)"
| "MOVE L = (0, - 1)"
| "MOVE R = (0, 1)"

definition isWall :: "state \<Rightarrow> bool" where
  "isWall k = (k \<in> set WALLS)"

definition isTerminal :: "state \<Rightarrow> bool" where
  "isTerminal k = (map_of TERMINALS k \<noteq> None)"

definition inBounds :: "state \<Rightarrow> bool" where
  "inBounds k = (fst k \<ge> 0 \<and> fst k < NROWS \<and> snd k \<ge> 0 \<and> snd k < NCOLS)"

definition nextStateDet :: "state \<Rightarrow> action \<Rightarrow> state" where
  "nextStateDet k a =
     (if isTerminal k then k
      else
        let (dr, dc) = MOVE a;
            nk = (fst k + dr, snd k + dc)
        in if \<not> inBounds nk then k
           else if isWall nk then k
           else nk)"

subsection \<open>Inputs, outcomes and the transition model\<close>

datatype algo = VI | PI

record inputs =
  algo :: algo
  gamma :: real
  slip :: real
  stepReward :: real
  maxIters :: int

record outcome =
  p :: real
  ns :: state
  r :: real

definition reward :: "inputs \<Rightarrow> state \<Rightarrow> real" where
  "reward inp stateKey =
     (case map_of TERMINALS stateKey of
        Some v \<Rightarrow> v
      | None \<Rightarrow> stepReward inp)"

text \<open>The \<^verbatim>\<open>for(const a2 of ACTIONS)\<close> loop of \<^verbatim>\<open>transitions\<close>, with its \<^verbatim>\<open>continue\<close>.\<close>

fun transitionsLoop :: "inputs \<Rightarrow> state \<Rightarrow> action \<Rightarrow> action list \<Rightarrow> outcome list \<Rightarrow> outcome list" where
  "transitionsLoop inp k a [] out = out"
| "transitionsLoop inp k a (a2 # as) out =
     (if a2 = a then transitionsLoop inp k a as out
      else
        let ns2 = nextStateDet k a2
        in transitionsLoop inp k a as
             (out @ [\<lparr>p = slip inp / 3, ns = ns2, r = reward inp ns2\<rparr>]))"

definition transitions :: "inputs \<Rightarrow> state \<Rightarrow> action \<Rightarrow> outcome list" where
  "transitions inp stateKey a =
     (if isTerminal stateKey then [\<lparr>p = 1, ns = stateKey, r = 0\<rparr>]
      else
        let pInt = 1 - slip inp;
            nsInt = nextStateDet stateKey a
        in transitionsLoop inp stateKey a ACTIONS
             [\<lparr>p = pInt, ns = nsInt, r = reward inp nsInt\<rparr>])"

text \<open>\<^verbatim>\<open>allStates\<close>: two nested counting loops, walls skipped.\<close>

definition allStates :: "state list" where
  "allStates =
     filter (\<lambda>k. \<not> isWall k)
       (concat (map (\<lambda>row. map (\<lambda>col. (row, col)) [0 .. NCOLS - 1]) [0 .. NROWS - 1]))"

subsection \<open>Q-values and the greedy loops\<close>

text \<open>
  The loop \<^verbatim>\<open>let q = 0; for(const t of transitions(s,a)) q += t.p * (t.r + gamma * V[t.ns])\<close>
  occurs four times in the source, always in this form.
\<close>

fun qLoop :: "real \<Rightarrow> (state \<Rightarrow> real) \<Rightarrow> outcome list \<Rightarrow> real \<Rightarrow> real" where
  "qLoop g v [] q = q"
| "qLoop g v (t # ts) q = qLoop g v ts (q + p t * (r t + g * v (ns t)))"

definition qValue :: "inputs \<Rightarrow> (state \<Rightarrow> real) \<Rightarrow> state \<Rightarrow> action \<Rightarrow> real" where
  "qValue inp v s a = qLoop (gamma inp) v (transitions inp s a) 0"

text \<open>\<^verbatim>\<open>if(q > best) best = q\<close> over the actions (Value Iteration).\<close>

fun bestLoop :: "(action \<Rightarrow> real) \<Rightarrow> action list \<Rightarrow> real \<Rightarrow> real" where
  "bestLoop q [] best = best"
| "bestLoop q (a # as) best = bestLoop q as (if q a > best then q a else best)"

text \<open>
  \<^verbatim>\<open>if(q > bestQ){ bestQ=q; bestA=a; }\<close> over the actions (policy extraction and
  improvement). \<^verbatim>\<open>bestA\<close> starts as \<^verbatim>\<open>"U"\<close> in \<^verbatim>\<open>greedyPolicyFromV\<close> and as the old action
  (possibly \<^verbatim>\<open>null\<close>) in the improvement sweep.
\<close>

fun greedyLoop :: "(action \<Rightarrow> real) \<Rightarrow> action list \<Rightarrow> real \<times> action option \<Rightarrow> real \<times> action option" where
  "greedyLoop q [] (bestQ, bestA) = (bestQ, bestA)"
| "greedyLoop q (a # as) (bestQ, bestA) =
     greedyLoop q as (if q a > bestQ then (q a, Some a) else (bestQ, bestA))"

type_synonym policy_table = "state \<Rightarrow> action option"

fun greedyPolicyLoop :: "inputs \<Rightarrow> (state \<Rightarrow> real) \<Rightarrow> state list \<Rightarrow> policy_table \<Rightarrow> policy_table" where
  "greedyPolicyLoop inp v [] pol = pol"
| "greedyPolicyLoop inp v (s # ss) pol =
     (if isTerminal s then greedyPolicyLoop inp v ss (pol(s := None))
      else greedyPolicyLoop inp v ss
             (pol(s := snd (greedyLoop (qValue inp v s) ACTIONS (- 1000000000, Some U)))))"

definition greedyPolicyFromV :: "inputs \<Rightarrow> (state \<Rightarrow> real) \<Rightarrow> policy_table" where
  "greedyPolicyFromV inp v = greedyPolicyLoop inp v allStates (\<lambda>_. None)"

subsection \<open>The solver state\<close>

datatype piMode = EVAL | IMPROVE

text \<open>
  The texts written to \<^verbatim>\<open>statusOut\<close>: \<open>InitialText\<close> is whatever the page shows before
  the script runs; \<open>Ready\<close> "Ready"; \<open>ReachedMax\<close> "Reached max iterations";
  \<open>RunningVIStep\<close> "Running VI step..."; \<open>RunningPIStep m\<close> "Running PI step (m)...";
  \<open>ConvergedDelta\<close> "Converged (delta small)"; \<open>ConvergedPolicy\<close>
  "Converged (policy stable)"; \<open>PIImproved\<close> "PI: improved, evaluating...";
  \<open>Stopped\<close> "Stopped"; \<open>RunningLoop\<close> "Running... (click Run again to stop)".
\<close>

datatype status =
    InitialText
  | Ready
  | ReachedMax
  | RunningVIStep
  | RunningPIStep piMode
  | ConvergedDelta
  | ConvergedPolicy
  | PIImproved
  | Stopped
  | RunningLoop

text \<open>\<^verbatim>\<open>statusOut.textContent.includes("Converged")\<close>\<close>

fun includesConverged :: "status \<Rightarrow> bool" where
  "includesConverged ConvergedDelta = True"
| "includesConverged ConvergedPolicy = True"
| "includesConverged _ = False"

record run =
  V :: "state \<Rightarrow> real"
  policy :: policy_table
  iter :: nat
  lastDelta :: real
  running :: bool
  piPolicy :: policy_table
  piMode :: piMode
  piEvalSweepsLeft :: int
  status :: status

datatype error = TypeError

text \<open>The module-level initialisers, before the first \<^verbatim>\<open>resetAll()\<close>.\<close>

definition loadState :: run where
  "loadState =
     \<lparr>V = (\<lambda>_. 0), policy = (\<lambda>_. None), iter = 0, lastDelta = 0, running = False,
      piPolicy = (\<lambda>_. None), piMode = EVAL, piEvalSweepsLeft = 0, status = InitialText\<rparr>"

fun initTablesLoop :: "state list \<Rightarrow> (state \<Rightarrow> real) \<times> policy_table \<Rightarrow> (state \<Rightarrow> real) \<times> policy_table" where
  "initTablesLoop [] (v, pol) = (v, pol)"
| "initTablesLoop (s # ss) (v, pol) =
     initTablesLoop ss (v(s := 0), pol(s := (if isTerminal s then None else Some R)))"

definition initTables :: "run \<Rightarrow> run" where
  "initTables st =
     (let (v, pol) = initTablesLoop allStates ((\<lambda>_. 0), (\<lambda>_. None))
      in st\<lparr>V := v, policy := pol\<rparr>)"

subsection \<open>Value Iteration\<close>

fun viLoop :: "inputs \<Rightarrow> (state \<Rightarrow> real) \<Rightarrow> state list \<Rightarrow> (state \<Rightarrow> real) \<times> real \<Rightarrow> (state \<Rightarrow> real) \<times> real" where
  "viLoop inp v [] (newV, delta) = (newV, delta)"
| "viLoop inp v (s # ss) (newV, delta) =
     (if isTerminal s then viLoop inp v ss (newV(s := 0), delta)
      else
        let best = bestLoop (qValue inp v s) ACTIONS (- 1000000000);
            newV' = newV(s := best)
        in viLoop inp v ss (newV', max delta \<bar>newV' s - v s\<bar>))"

definition valueIterationSweep :: "inputs \<Rightarrow> run \<Rightarrow> run" where
  "valueIterationSweep inp st =
     (let (newV, delta) = viLoop inp (V st) allStates (V st, 0)
      in st\<lparr>V := newV, lastDelta := delta, policy := greedyPolicyFromV inp newV\<rparr>)"

subsection \<open>Policy Iteration\<close>

text \<open>
  The evaluation sweep. \<^verbatim>\<open>transitions(s, a)\<close> with \<^verbatim>\<open>a = piPolicy[s]\<close> not an action
  throws at \<^verbatim>\<open>const [dr,dc] = MOVE[a]\<close>.
\<close>

fun evalLoop :: "inputs \<Rightarrow> (state \<Rightarrow> real) \<Rightarrow> policy_table \<Rightarrow> state list \<Rightarrow> (state \<Rightarrow> real) \<Rightarrow> error + (state \<Rightarrow> real)" where
  "evalLoop inp v pol [] newV = Inr newV"
| "evalLoop inp v pol (s # ss) newV =
     (if isTerminal s then evalLoop inp v pol ss (newV(s := 0))
      else
        case pol s of
          None \<Rightarrow> Inl TypeError
        | Some a \<Rightarrow> evalLoop inp v pol ss (newV(s := qValue inp v s a)))"

fun deltaLoop :: "(state \<Rightarrow> real) \<Rightarrow> (state \<Rightarrow> real) \<Rightarrow> state list \<Rightarrow> real \<Rightarrow> real" where
  "deltaLoop newV v [] d = d"
| "deltaLoop newV v (s # ss) d = deltaLoop newV v ss (max d \<bar>newV s - v s\<bar>)"

text \<open>The improvement sweep; the state of the loop is \<^verbatim>\<open>piPolicy\<close> and \<^verbatim>\<open>stable\<close> (here \<open>stableF\<close>).\<close>

fun improveLoop :: "inputs \<Rightarrow> (state \<Rightarrow> real) \<Rightarrow> state list \<Rightarrow> policy_table \<times> bool \<Rightarrow> policy_table \<times> bool" where
  "improveLoop inp v [] (pol, stableF) = (pol, stableF)"
| "improveLoop inp v (s # ss) (pol, stableF) =
     (if isTerminal s then improveLoop inp v ss (pol, stableF)
      else
        let oldA = pol s;
            bestA = snd (greedyLoop (qValue inp v s) ACTIONS (- 1000000000, oldA))
        in improveLoop inp v ss (pol(s := bestA), (if bestA \<noteq> oldA then False else stableF)))"

definition policyIterationStep :: "inputs \<Rightarrow> run \<Rightarrow> error + run" where
  "policyIterationStep inp st =
     (case piMode st of
        EVAL \<Rightarrow>
          (case evalLoop inp (V st) (piPolicy st) allStates (V st) of
             Inl e \<Rightarrow> Inl e
           | Inr newV \<Rightarrow>
               let d = deltaLoop newV (V st) allStates 0;
                   left = piEvalSweepsLeft st - 1
               in Inr (st\<lparr>V := newV, lastDelta := d, piEvalSweepsLeft := left,
                         piMode := (if left \<le> 0 then IMPROVE else EVAL),
                         policy := piPolicy st\<rparr>))
      | IMPROVE \<Rightarrow>
          let (pol, stableF) = improveLoop inp (V st) allStates (piPolicy st, True)
          in Inr (st\<lparr>piPolicy := pol, policy := pol, lastDelta := 0, piMode := EVAL,
                    piEvalSweepsLeft := 10,
                    status := (if stableF then ConvergedPolicy else PIImproved),
                    running := (if stableF then False else running st)\<rparr>))"

subsection \<open>Controls\<close>

fun piInitLoop :: "state list \<Rightarrow> policy_table \<Rightarrow> policy_table" where
  "piInitLoop [] pol = pol"
| "piInitLoop (s # ss) pol = piInitLoop ss (pol(s := (if isTerminal s then None else Some R)))"

definition resetAll :: "run \<Rightarrow> run" where
  "resetAll st =
     (initTables st)\<lparr>iter := 0, lastDelta := 0, running := False,
                     piPolicy := piInitLoop allStates (\<lambda>_. None),
                     piMode := EVAL, piEvalSweepsLeft := 10, status := Ready\<rparr>"

definition doOneStep :: "inputs \<Rightarrow> run \<Rightarrow> error + run" where
  "doOneStep inp st =
     (if int (iter st) \<ge> maxIters inp then Inr (st\<lparr>status := ReachedMax\<rparr>)
      else
        let st1 = st\<lparr>status := (if algo inp = VI then RunningVIStep else RunningPIStep (piMode st))\<rparr>
        in if algo inp = VI then
             let st2 = valueIterationSweep inp st1;
                 st3 = (if lastDelta st2 < 1 / 10000
                        then st2\<lparr>status := ConvergedDelta, running := False\<rparr> else st2)
             in Inr (st3\<lparr>iter := iter st3 + 1\<rparr>)
           else
             case policyIterationStep inp st1 of
               Inl e \<Rightarrow> Inl e
             | Inr st2 \<Rightarrow> Inr (st2\<lparr>iter := iter st2 + 1\<rparr>))"

text \<open>
  Successive calls of \<^verbatim>\<open>doOneStep\<close> (clicks on Step), each with the input values on the
  page at that moment; an exception ends the sequence.
\<close>

fun steps :: "inputs list \<Rightarrow> run \<Rightarrow> error + run" where
  "steps [] st = Inr st"
| "steps (inp # inps) st =
     (case doOneStep inp st of
        Inl e \<Rightarrow> Inl e
      | Inr st' \<Rightarrow> steps inps st')"

text \<open>
  \<^verbatim>\<open>runLoop\<close>. After each \<^verbatim>\<open>doOneStep()\<close> the loop sleeps and then makes its two checks
  (\<open>afterStep\<close>). The model keeps the input values fixed while the loop runs and leaves
  out what other handlers may do during a sleep. The loop ends, since every pass that
  does not raise increments \<^verbatim>\<open>iter\<close> below \<^verbatim>\<open>maxIters\<close>.
\<close>

definition afterStep :: "inputs \<Rightarrow> run \<Rightarrow> run" where
  "afterStep inp st =
     (let st1 = (if algo inp = VI \<and> lastDelta st < 1 / 10000 then st\<lparr>running := False\<rparr> else st)
      in if includesConverged (status st1) then st1\<lparr>running := False\<rparr> else st1)"

function runWhile :: "inputs \<Rightarrow> run \<Rightarrow> error + run" where
  "runWhile inp st =
     (if running st \<and> int (iter st) < maxIters inp then
        (case doOneStep inp st of
           Inl e \<Rightarrow> Inl e
         | Inr st1 \<Rightarrow> runWhile inp (afterStep inp st1))
      else Inr st)"
  by pat_completeness auto
termination
proof (relation "measure (\<lambda>(inp, st). nat (maxIters inp - int (iter st)))")
  show "wf (measure (\<lambda>(inp, st). nat (maxIters inp - int (iter st))))" by simp
next
  fix inp :: inputs and st st1 :: run
  assume guard: "running st \<and> int (iter st) < maxIters inp"
    and step: "doOneStep inp st = Inr st1"
  have "iter st1 = Suc (iter st)"
    using guard step
    by (auto simp: doOneStep_def Let_def policyIterationStep_def valueIterationSweep_def
          case_prod_beta split: if_splits sum.splits piMode.splits)
  moreover have "iter (afterStep inp st1) = iter st1"
    by (simp add: afterStep_def Let_def)
  ultimately show "((inp, afterStep inp st1), (inp, st))
      \<in> measure (\<lambda>(inp, st). nat (maxIters inp - int (iter st)))"
    using guard by simp
qed

definition runLoop :: "inputs \<Rightarrow> run \<Rightarrow> error + run" where
  "runLoop inp st =
     (if running st then Inr (st\<lparr>running := False, status := Stopped\<rparr>)
      else
        case runWhile inp (st\<lparr>running := True, status := RunningLoop\<rparr>) of
          Inl e \<Rightarrow> Inl e
        | Inr st' \<Rightarrow>
            Inr (if int (iter st') \<ge> maxIters inp then st'\<lparr>status := ReachedMax\<rparr> else st'))"

text \<open>What an observer reads off the page after a sequence of calls.\<close>

definition statusAfter :: "error + run \<Rightarrow> status option" where
  "statusAfter x = (case x of Inl e \<Rightarrow> None | Inr st \<Rightarrow> Some (status st))"

definition iterAfter :: "error + run \<Rightarrow> nat option" where
  "iterAfter x = (case x of Inl e \<Rightarrow> None | Inr st \<Rightarrow> Some (iter st))"

definition valueAfter :: "error + run \<Rightarrow> state \<Rightarrow> real option" where
  "valueAfter x s = (case x of Inl e \<Rightarrow> None | Inr st \<Rightarrow> Some (V st s))"

definition workingPolicyAfter :: "error + run \<Rightarrow> state \<Rightarrow> action option option" where
  "workingPolicyAfter x s = (case x of Inl e \<Rightarrow> None | Inr st \<Rightarrow> Some (piPolicy st s))"

definition policyAfter :: "error + run \<Rightarrow> state \<Rightarrow> action option option" where
  "policyAfter x s = (case x of Inl e \<Rightarrow> None | Inr st \<Rightarrow> Some (policy st s))"

definition sweepsLeftAfter :: "error + run \<Rightarrow> int option" where
  "sweepsLeftAfter x = (case x of Inl e \<Rightarrow> None | Inr st \<Rightarrow> Some (piEvalSweepsLeft st))"


subsection \<open>Reachable solver states and specification-side notions\<close>

text \<open>
  The page runs \<^verbatim>\<open>resetAll()\<close> when the script loads; afterwards the state changes only
  through the buttons: Reset (\<^verbatim>\<open>resetAll\<close>), Step (\<^verbatim>\<open>doOneStep\<close>) and Run (\<^verbatim>\<open>runLoop\<close>,
  which calls \<^verbatim>\<open>doOneStep\<close> and otherwise writes only \<^verbatim>\<open>running\<close> and the status text).
\<close>

inductive reachable :: "run \<Rightarrow> bool" where
  reachable_reset: "reachable (resetAll st)"
| reachable_step: "reachable st \<Longrightarrow> doOneStep inp st = Inr st' \<Longrightarrow> reachable st'"
| reachable_flags: "reachable st \<Longrightarrow> reachable (st\<lparr>running := b, status := x\<rparr>)"

text \<open>The invariant of the reachable states that the sweeps rely on.\<close>

definition wellFormed :: "run \<Rightarrow> bool" where
  "wellFormed st \<longleftrightarrow>
     (\<forall>s. isTerminal s \<longrightarrow> V st s = 0) \<and>
     (\<forall>s\<in>set allStates. \<not> isTerminal s \<longrightarrow> piPolicy st s \<noteq> None) \<and>
     (\<forall>s. isTerminal s \<longrightarrow> piPolicy st s = None) \<and>
     (piMode st = EVAL \<longrightarrow> 1 \<le> piEvalSweepsLeft st \<and> piEvalSweepsLeft st \<le> 10) \<and>
     (piMode st = IMPROVE \<longrightarrow> piEvalSweepsLeft st = 0)"

text \<open>
  The specification's tie-break, in its words: the first action in the enumeration order
  whose Q-value is greater than or equal to the Q-value of every other action.
\<close>

definition firstMaximiser :: "(action \<Rightarrow> real) \<Rightarrow> action option" where
  "firstMaximiser q = find (\<lambda>a. list_all (\<lambda>b. q b \<le> q a) ACTIONS) ACTIONS"


subsection \<open>Input values and tables of the examples\<close>

text \<open>The page's usual settings.\<close>

definition exampleInputs :: inputs where
  "exampleInputs = \<lparr>algo = VI, gamma = 9 / 10, slip = 1 / 5, stepReward = - 1 / 25, maxIters = 100\<rparr>"

text \<open>The same settings after the step reward field has been changed to \<open>- 1\<close>.\<close>

definition changedRewardInputs :: inputs where
  "changedRewardInputs = \<lparr>algo = VI, gamma = 9 / 10, slip = 1 / 5, stepReward = - 1, maxIters = 100\<rparr>"

text \<open>A step reward below the sentinel \<^verbatim>\<open>-1e9\<close>.\<close>

definition hugePenaltyInputs :: inputs where
  "hugePenaltyInputs = \<lparr>algo = VI, gamma = 1, slip = 0, stepReward = - 2000000000, maxIters = 100\<rparr>"

text \<open>The same for Policy Iteration, with discount 0.\<close>

definition hugePenaltyPIInputs :: inputs where
  "hugePenaltyPIInputs = \<lparr>algo = PI, gamma = 0, slip = 0, stepReward = - 2000000000, maxIters = 100\<rparr>"

text \<open>Policy Iteration with the cap at one iteration, and with the cap at zero.\<close>

definition capOneInputs :: inputs where
  "capOneInputs = \<lparr>algo = PI, gamma = 9 / 10, slip = 1 / 5, stepReward = - 1 / 25, maxIters = 1\<rparr>"






text \<open>
  Policy Iteration with slip \<open>3/4\<close>: every move then has probability \<open>1/4\<close> whatever the
  action. \<open>uniformSlipT10\<close> and \<open>uniformSlipT21\<close> are the value tables after the first and the
  second evaluation phase of the run from reset; \<open>allRight\<close> and \<open>allUp\<close> are the policies
  of these two phases.
\<close>

definition uniformSlipInputs :: inputs where
  "uniformSlipInputs = \<lparr>algo = PI, gamma = 1, slip = 3 / 4, stepReward = 0, maxIters = 100\<rparr>"

definition uniformSlipT10 :: "real list" where
  "uniformSlipT10 =
     [337905 / 524288, 408865 / 262144, 204715 / 65536, 1399545 / 262144, 0,
      45065 / 262144, 1708195 / 524288, 2321795 / 524288, - (76655 / 524288),
      - (184915 / 524288), 129875 / 524288, 42065 / 262144, - (107515 / 262144),
      - (443285 / 524288), - (15215 / 8192), - (344375 / 131072),
      - (271035 / 65536), - (149945 / 262144), - (604755 / 524288),
      - (657435 / 262144), - (2598695 / 524288), 0]"

definition uniformSlipT21 :: "real list" where
  "uniformSlipT21 =
     [405354209155 / 274877906944, 1479198151125 / 549755813888,
      1146153232515 / 274877906944, 3230730058585 / 549755813888, 0,
      252212611065 / 549755813888, 1960694975405 / 549755813888,
      2521779605025 / 549755813888, - (273695384185 / 549755813888),
      - (527116752385 / 549755813888), 4855061625 / 17179869184,
      14682431735 / 68719476736, - (76289778305 / 68719476736),
      - (881392749075 / 549755813888), - (697996434565 / 274877906944),
      - (25279657525 / 8589934592), - (2327206837425 / 549755813888),
      - (395284913225 / 274877906944), - (1108967546735 / 549755813888),
      - (892088193975 / 274877906944), - (2948800815705 / 549755813888), 0]"

definition allRight :: "action option list" where
  "allRight = map (\<lambda>s. if isTerminal s then None else Some R) allStates"

definition allUp :: "action option list" where
  "allUp = map (\<lambda>s. if isTerminal s then None else Some U) allStates"


subsection \<open>What the sweeps compute, state by state\<close>

text \<open>
  The three sweeps as functions on tables; the lemmas \<open>viLoop_eq\<close>, \<open>evalLoop_eq\<close> and
  \<open>improveLoop_eq\<close> show that the loops of the source compute them.
\<close>

definition sweepF :: "inputs \<Rightarrow> (state \<Rightarrow> real) \<Rightarrow> state \<Rightarrow> real" where
  "sweepF inp v =
     (\<lambda>s. if s \<in> set allStates
          then (if isTerminal s then 0 else bestLoop (qValue inp v s) ACTIONS (- 1000000000))
          else v s)"

definition evalF :: "inputs \<Rightarrow> policy_table \<Rightarrow> (state \<Rightarrow> real) \<Rightarrow> state \<Rightarrow> real" where
  "evalF inp pol v =
     (\<lambda>s. if s \<in> set allStates
          then (if isTerminal s then 0
                else (case pol s of Some a \<Rightarrow> qValue inp v s a | None \<Rightarrow> 0))
          else v s)"

definition improveF :: "inputs \<Rightarrow> (state \<Rightarrow> real) \<Rightarrow> policy_table \<Rightarrow> policy_table" where
  "improveF inp v pol =
     (\<lambda>s. if s \<in> set allStates \<and> \<not> isTerminal s
          then snd (greedyLoop (qValue inp v s) ACTIONS (- 1000000000, pol s))
          else pol s)"

text \<open>
  Tables written out as lists, one entry per state in the order of \<^verbatim>\<open>allStates()\<close>; they
  serve to evaluate concrete runs.
\<close>

definition tabOf :: "'a \<Rightarrow> 'a list \<Rightarrow> state \<Rightarrow> 'a" where
  "tabOf d xs = (\<lambda>s. case map_of (zip allStates xs) s of Some x \<Rightarrow> x | None \<Rightarrow> d)"

definition evalTab :: "inputs \<Rightarrow> action option list \<Rightarrow> real list \<Rightarrow> real list" where
  "evalTab inp ps xs =
     map (\<lambda>s. if isTerminal s then 0
              else (case tabOf None ps s of Some a \<Rightarrow> qValue inp (tabOf 0 xs) s a | None \<Rightarrow> 0))
         allStates"

definition improveTab :: "inputs \<Rightarrow> real list \<Rightarrow> action option list \<Rightarrow> action option list" where
  "improveTab inp xs ps =
     map (\<lambda>s. if isTerminal s then tabOf None ps s
              else snd (greedyLoop (qValue inp (tabOf 0 xs) s) ACTIONS (- 1000000000, tabOf None ps s)))
         allStates"

section \<open>Properties of the loops\<close>

lemma allStates_eq:
  "allStates = [(0,0),(0,1),(0,2),(0,3),(0,4),(1,0),(1,3),(1,4),(2,0),(2,1),(2,3),(2,4),
                (3,0),(3,1),(3,2),(3,3),(3,4),(4,0),(4,1),(4,2),(4,3),(4,4)]"
  by (simp add: allStates_def NROWS_def NCOLS_def isWall_def WALLS_def upto_rec1)

lemma isTerminal_iff: "isTerminal k \<longleftrightarrow> k = (0, 4) \<or> k = (4, 4)"
  by (auto simp: isTerminal_def TERMINALS_def)

lemma isWall_iff: "isWall k \<longleftrightarrow> k = (1, 1) \<or> k = (1, 2) \<or> k = (2, 2)"
  by (auto simp: isWall_def WALLS_def)

lemma allStates_iff: "k \<in> set allStates \<longleftrightarrow> inBounds k \<and> \<not> isWall k"
  by (cases k) (auto simp: allStates_def inBounds_def NROWS_def NCOLS_def image_iff)

lemma nextStateDet_allStates: "k \<in> set allStates \<Longrightarrow> nextStateDet k a \<in> set allStates"
  by (simp add: allStates_iff nextStateDet_def Let_def split: prod.splits)

lemma transitionsLoop_eq:
  "transitionsLoop inp k a as out =
     out @ map (\<lambda>a2. \<lparr>p = slip inp / 3, ns = nextStateDet k a2, r = reward inp (nextStateDet k a2)\<rparr>)
             (filter (\<lambda>a2. a2 \<noteq> a) as)"
  by (induction as arbitrary: out) (simp_all add: Let_def)


lemma qLoop_eq: "qLoop g v ts q = q + (\<Sum>t\<leftarrow>ts. p t * (r t + g * v (ns t)))"
  by (induction ts arbitrary: q) simp_all

lemma qValue_eq: "qValue inp v s a = (\<Sum>t\<leftarrow>transitions inp s a. p t * (r t + gamma inp * v (ns t)))"
  by (simp add: qValue_def qLoop_eq)

lemma bestLoop_ge_init: "best \<le> bestLoop q as best"
proof (induction as arbitrary: best)
  case Nil
  show ?case by simp
next
  case (Cons a as)
  have "best \<le> (if q a > best then q a else best)" by simp
  also have "\<dots> \<le> bestLoop q as (if q a > best then q a else best)" by (rule Cons.IH)
  finally show ?case by simp
qed

lemma bestLoop_ge_elem: "a \<in> set as \<Longrightarrow> q a \<le> bestLoop q as best"
proof (induction as arbitrary: best)
  case Nil
  then show ?case by simp
next
  case (Cons b as)
  show ?case
  proof (cases "a = b")
    case True
    have "q b \<le> (if q b > best then q b else best)" by simp
    also have "\<dots> \<le> bestLoop q as (if q b > best then q b else best)" by (rule bestLoop_ge_init)
    finally show ?thesis using True by simp
  next
    case False
    with Cons.prems have "a \<in> set as" by simp
    then show ?thesis using Cons.IH by simp
  qed
qed

lemma bestLoop_mem: "bestLoop q as best \<in> insert best (q ` set as)"
proof (induction as arbitrary: best)
  case Nil
  show ?case by simp
next
  case (Cons a as)
  have "bestLoop q as (if q a > best then q a else best) \<in> insert (if q a > best then q a else best) (q ` set as)"
    by (rule Cons.IH)
  then show ?case by auto
qed

lemma bestLoop_Max: "bestLoop q as best = Max (insert best (q ` set as))"
proof (rule sym, rule Max_eqI)
  show "finite (insert best (q ` set as))" by simp
  show "bestLoop q as best \<in> insert best (q ` set as)" by (rule bestLoop_mem)
  fix y assume "y \<in> insert best (q ` set as)"
  then show "y \<le> bestLoop q as best"
    using bestLoop_ge_init [of best q as] bestLoop_ge_elem [of _ as q best] by auto
qed

lemma greedyLoop_fst: "fst (greedyLoop q as (bestQ, bestA)) = bestLoop q as bestQ"
  by (induction as arbitrary: bestQ bestA) simp_all

lemma greedyLoop_snd:
  "snd (greedyLoop q as (bestQ, bestA)) =
     (if \<exists>a\<in>set as. q a > bestQ
      then find (\<lambda>a. q a > bestQ \<and> (\<forall>b\<in>set as. q b \<le> q a)) as
      else bestA)"
proof (induction as arbitrary: bestQ bestA)
  case Nil
  show ?case by simp
next
  case (Cons a as)
  show ?case
  proof (cases "q a > bestQ")
    case True
    have step: "snd (greedyLoop q (a # as) (bestQ, bestA)) = snd (greedyLoop q as (q a, Some a))"
      using True by simp
    show ?thesis
    proof (cases "\<exists>b\<in>set as. q b > q a")
      case False
      then have "\<forall>b\<in>set as. q b \<le> q a" by (auto simp: not_less)
      then show ?thesis using True False step Cons.IH [of "q a" "Some a"] by auto
    next
      case ex: True
      have "find (\<lambda>x. q x > q a \<and> (\<forall>b\<in>set as. q b \<le> q x)) as =
            find (\<lambda>x. q x > bestQ \<and> (\<forall>b\<in>set (a # as). q b \<le> q x)) as"
        using ex True by (intro find_cong refl) force
      moreover have "\<not> (\<forall>b\<in>set (a # as). q b \<le> q a)" using ex by (auto simp: not_le)
      ultimately show ?thesis using True ex step Cons.IH [of "q a" "Some a"] by auto
    qed
  next
    case False
    have step: "snd (greedyLoop q (a # as) (bestQ, bestA)) = snd (greedyLoop q as (bestQ, bestA))"
      using False by simp
    have "find (\<lambda>x. q x > bestQ \<and> (\<forall>b\<in>set as. q b \<le> q x)) as =
          find (\<lambda>x. q x > bestQ \<and> (\<forall>b\<in>set (a # as). q b \<le> q x)) as"
      using False by (intro find_cong refl) force
    then show ?thesis using False step Cons.IH [of bestQ bestA] by auto
  qed
qed

lemma greedyLoop_firstMaximiser:
  assumes "\<exists>a\<in>set ACTIONS. q a > bestQ"
  shows "snd (greedyLoop q ACTIONS (bestQ, bestA)) = firstMaximiser q"
proof -
  from assms obtain a where a: "a \<in> set ACTIONS" "q a > bestQ" by blast
  have "find (\<lambda>x. q x > bestQ \<and> (\<forall>b\<in>set ACTIONS. q b \<le> q x)) ACTIONS =
        find (\<lambda>x. \<forall>b\<in>set ACTIONS. q b \<le> q x) ACTIONS"
    using a by (intro find_cong refl) force
  then show ?thesis using assms by (simp add: greedyLoop_snd firstMaximiser_def list_all_iff)
qed

lemma set_ACTIONS: "set ACTIONS = UNIV"
proof -
  have "a \<in> set ACTIONS" for a by (cases a) (simp_all add: ACTIONS_def)
  then show ?thesis by blast
qed

lemma Max_insert_max:
  fixes a b :: real
  assumes "finite S"
  shows "Max (insert (max a b) S) = Max (insert a (insert b S))"
proof (cases "S = {}")
  case True
  then show ?thesis by (simp add: max.commute)
next
  case False
  with assms show ?thesis by (simp add: max.assoc max.commute max.left_commute)
qed

lemma distinct_allStates: "distinct allStates"
  by (simp add: allStates_eq)

lemma terminal_allStates: "isTerminal s \<Longrightarrow> s \<in> set allStates"
  by (auto simp: isTerminal_iff allStates_eq)

lemma nonterminal_allStates: "(2, 0) \<in> set allStates \<and> \<not> isTerminal (2, 0)"
  by (simp add: allStates_iff isTerminal_iff isWall_iff inBounds_def NROWS_def NCOLS_def)

subsection \<open>Value Iteration sweep\<close>

lemma viLoop_fst:
  "fst (viLoop inp v ss (newV, delta)) =
     (\<lambda>s. if s \<in> set ss
          then (if isTerminal s then 0 else bestLoop (qValue inp v s) ACTIONS (- 1000000000))
          else newV s)"
proof (induction ss arbitrary: newV delta)
  case Nil
  show ?case by simp
next
  case (Cons x xs)
  show ?case by (rule ext) (simp add: Cons.IH Let_def)
qed

lemma viLoop_snd:
  "snd (viLoop inp v ss (newV, delta)) =
     Max (insert delta ((\<lambda>s. \<bar>bestLoop (qValue inp v s) ACTIONS (- 1000000000) - v s\<bar>)
                          ` {s \<in> set ss. \<not> isTerminal s}))"
proof (induction ss arbitrary: newV delta)
  case Nil
  show ?case by simp
next
  case (Cons x xs)
  show ?case
  proof (cases "isTerminal x")
    case True
    have "{s \<in> set (x # xs). \<not> isTerminal s} = {s \<in> set xs. \<not> isTerminal s}"
      using True by auto
    then show ?thesis using True by (simp add: Cons.IH)
  next
    case False
    have "{s \<in> set (x # xs). \<not> isTerminal s} = insert x {s \<in> set xs. \<not> isTerminal s}"
      using False by auto
    then show ?thesis using False
      by (simp add: Cons.IH Let_def Max_insert_max insert_commute)
  qed
qed

lemma viLoop_eq: "fst (viLoop inp v allStates (v, 0)) = sweepF inp v"
  by (simp add: viLoop_fst sweepF_def)

lemma greedyPolicyLoop_eq:
  "greedyPolicyLoop inp v ss pol =
     (\<lambda>s. if s \<in> set ss
          then (if isTerminal s then None
                else snd (greedyLoop (qValue inp v s) ACTIONS (- 1000000000, Some U)))
          else pol s)"
proof (induction ss arbitrary: pol)
  case Nil
  show ?case by simp
next
  case (Cons x xs)
  show ?case by (rule ext) (simp add: Cons.IH)
qed

lemma greedyPolicyFromV_eq:
  "greedyPolicyFromV inp v =
     (\<lambda>s. if s \<in> set allStates \<and> \<not> isTerminal s
          then snd (greedyLoop (qValue inp v s) ACTIONS (- 1000000000, Some U))
          else None)"
  by (rule ext) (simp add: greedyPolicyFromV_def greedyPolicyLoop_eq)

lemma V_valueIterationSweep: "V (valueIterationSweep inp st) = sweepF inp (V st)"
  by (simp add: valueIterationSweep_def case_prod_beta viLoop_eq)

lemma policy_valueIterationSweep:
  "policy (valueIterationSweep inp st) = greedyPolicyFromV inp (sweepF inp (V st))"
  by (simp add: valueIterationSweep_def case_prod_beta viLoop_eq)

lemma lastDelta_valueIterationSweep:
  "lastDelta (valueIterationSweep inp st) =
     Max (insert 0 ((\<lambda>s. \<bar>sweepF inp (V st) s - V st s\<bar>) ` {s \<in> set allStates. \<not> isTerminal s}))"
proof -
  have "(\<lambda>s. \<bar>bestLoop (qValue inp (V st) s) ACTIONS (- 1000000000) - V st s\<bar>)
          ` {s \<in> set allStates. \<not> isTerminal s}
        = (\<lambda>s. \<bar>sweepF inp (V st) s - V st s\<bar>) ` {s \<in> set allStates. \<not> isTerminal s}"
    by (rule image_cong) (simp_all add: sweepF_def)
  then show ?thesis
    by (simp add: valueIterationSweep_def case_prod_beta viLoop_snd)
qed

lemma other_valueIterationSweep:
  "iter (valueIterationSweep inp st) = iter st"
  "running (valueIterationSweep inp st) = running st"
  "piPolicy (valueIterationSweep inp st) = piPolicy st"
  "piMode (valueIterationSweep inp st) = piMode st"
  "piEvalSweepsLeft (valueIterationSweep inp st) = piEvalSweepsLeft st"
  "status (valueIterationSweep inp st) = status st"
  by (simp_all add: valueIterationSweep_def case_prod_beta)

subsection \<open>Policy Iteration sweeps\<close>

lemma evalLoop_general:
  assumes "\<forall>s\<in>set ss. \<not> isTerminal s \<longrightarrow> pol s \<noteq> None"
  shows "evalLoop inp v pol ss newV =
     Inr (\<lambda>s. if s \<in> set ss
              then (if isTerminal s then 0
                    else (case pol s of Some a \<Rightarrow> qValue inp v s a | None \<Rightarrow> 0))
              else newV s)"
  using assms
proof (induction ss arbitrary: newV)
  case Nil
  show ?case by simp
next
  case (Cons x xs)
  then have IH: "\<And>nv. evalLoop inp v pol xs nv =
     Inr (\<lambda>s. if s \<in> set xs
              then (if isTerminal s then 0
                    else (case pol s of Some a \<Rightarrow> qValue inp v s a | None \<Rightarrow> 0))
              else nv s)" by simp
  show ?case
  proof (cases "isTerminal x")
    case True
    then show ?thesis by (simp add: IH) (rule ext, simp)
  next
    case False
    with Cons.prems obtain a where a: "pol x = Some a" by auto
    show ?thesis using False a by (simp add: IH) (rule ext, simp)
  qed
qed

lemma evalLoop_eq:
  assumes "\<forall>s\<in>set allStates. \<not> isTerminal s \<longrightarrow> pol s \<noteq> None"
  shows "evalLoop inp v pol allStates v = Inr (evalF inp pol v)"
  by (simp add: evalLoop_general [OF assms] evalF_def)

lemma evalLoop_error:
  "evalLoop inp v pol ss newV = Inl e \<Longrightarrow> \<exists>s\<in>set ss. \<not> isTerminal s \<and> pol s = None"
  by (induction ss arbitrary: newV) (auto split: if_splits option.splits)

lemma deltaLoop_eq:
  "deltaLoop newV v ss d = Max (insert d ((\<lambda>s. \<bar>newV s - v s\<bar>) ` set ss))"
proof (induction ss arbitrary: d)
  case Nil
  show ?case by simp
next
  case (Cons x xs)
  show ?case by (simp add: Cons.IH Max_insert_max insert_commute)
qed

lemma improveLoop_general:
  assumes "distinct ss"
  shows "improveLoop inp v ss (pol, stableF) =
     ((\<lambda>s. if s \<in> set ss \<and> \<not> isTerminal s
           then snd (greedyLoop (qValue inp v s) ACTIONS (- 1000000000, pol s))
           else pol s),
      stableF \<and> (\<forall>s\<in>set ss. \<not> isTerminal s \<longrightarrow>
          snd (greedyLoop (qValue inp v s) ACTIONS (- 1000000000, pol s)) = pol s))"
  using assms
proof (induction ss arbitrary: pol stableF)
  case Nil
  show ?case by simp
next
  case (Cons x xs)
  then have dx: "x \<notin> set xs" and d: "distinct xs" by simp_all
  show ?case
  proof (cases "isTerminal x")
    case True
    show ?thesis using True by (auto simp: Cons.IH [OF d])
  next
    case False
    show ?thesis using False dx
      by (auto simp: Cons.IH [OF d] Let_def)
  qed
qed

lemma improveLoop_eq:
  "improveLoop inp v allStates (pol, True) = (improveF inp v pol, improveF inp v pol = pol)"
proof -
  have "(\<forall>s\<in>set allStates. \<not> isTerminal s \<longrightarrow>
           snd (greedyLoop (qValue inp v s) ACTIONS (- 1000000000, pol s)) = pol s)
        \<longleftrightarrow> improveF inp v pol = pol"
    by (auto simp: improveF_def fun_eq_iff)
  then show ?thesis
    by (simp add: improveLoop_general [OF distinct_allStates] improveF_def)
qed

lemma policyIterationStep_EVAL:
  assumes "piMode st = EVAL"
    and "\<forall>s\<in>set allStates. \<not> isTerminal s \<longrightarrow> pol s \<noteq> None"
    and "piPolicy st = pol" and "V st = v" and "piEvalSweepsLeft st = n"
  shows "policyIterationStep inp st =
     Inr (st\<lparr>V := evalF inp pol v,
             lastDelta := deltaLoop (evalF inp pol v) v allStates 0,
             piEvalSweepsLeft := n - 1,
             piMode := (if n - 1 \<le> 0 then IMPROVE else EVAL),
             policy := pol\<rparr>)"
  using assms(1,3,4,5) by (simp add: policyIterationStep_def evalLoop_eq [OF assms(2)] Let_def)

lemma policyIterationStep_IMPROVE:
  assumes "piMode st = IMPROVE" and "piPolicy st = pol" and "V st = v" and "running st = b"
  shows "policyIterationStep inp st =
     Inr (st\<lparr>piPolicy := improveF inp v pol, policy := improveF inp v pol,
             lastDelta := 0, piMode := EVAL, piEvalSweepsLeft := 10,
             status := (if improveF inp v pol = pol then ConvergedPolicy else PIImproved),
             running := (if improveF inp v pol = pol then False else b)\<rparr>)"
  using assms by (simp add: policyIterationStep_def improveLoop_eq Let_def)

subsection \<open>Reset and single steps\<close>

lemma initTablesLoop_eq:
  "initTablesLoop ss (v, pol) =
     ((\<lambda>s. if s \<in> set ss then 0 else v s),
      (\<lambda>s. if s \<in> set ss then (if isTerminal s then None else Some R) else pol s))"
proof (induction ss arbitrary: v pol)
  case Nil
  show ?case by simp
next
  case (Cons x xs)
  show ?case by (auto simp: Cons.IH)
qed

lemma piInitLoop_eq:
  "piInitLoop ss pol = (\<lambda>s. if s \<in> set ss then (if isTerminal s then None else Some R) else pol s)"
proof (induction ss arbitrary: pol)
  case Nil
  show ?case by simp
next
  case (Cons x xs)
  show ?case by (auto simp: Cons.IH)
qed

lemma resetAll_eq:
  "resetAll st =
     \<lparr>V = (\<lambda>_. 0),
      policy = (\<lambda>s. if s \<in> set allStates \<and> \<not> isTerminal s then Some R else None),
      iter = 0, lastDelta = 0, running = False,
      piPolicy = (\<lambda>s. if s \<in> set allStates \<and> \<not> isTerminal s then Some R else None),
      piMode = EVAL, piEvalSweepsLeft = 10, status = Ready\<rparr>"
  by (cases st) (auto simp: resetAll_def initTables_def initTablesLoop_eq piInitLoop_eq)

lemma doOneStep_guard:
  "int (iter st) \<ge> maxIters inp \<Longrightarrow> doOneStep inp st = Inr (st\<lparr>status := ReachedMax\<rparr>)"
  by (simp add: doOneStep_def)

lemma doOneStep_VI:
  assumes "algo inp = VI" and "int (iter st) < maxIters inp"
  shows "doOneStep inp st =
     Inr (let st2 = valueIterationSweep inp (st\<lparr>status := RunningVIStep\<rparr>);
              st3 = (if lastDelta st2 < 1 / 10000
                     then st2\<lparr>status := ConvergedDelta, running := False\<rparr> else st2)
          in st3\<lparr>iter := iter st3 + 1\<rparr>)"
  using assms by (simp add: doOneStep_def Let_def)

lemma doOneStep_VI_fields:
  assumes "algo inp = VI" and "int (iter st) < maxIters inp" and "doOneStep inp st = Inr st'"
  shows "V st' = sweepF inp (V st)"
    and "policy st' = greedyPolicyFromV inp (sweepF inp (V st))"
    and "lastDelta st' =
           Max (insert 0 ((\<lambda>s. \<bar>sweepF inp (V st) s - V st s\<bar>) ` {s \<in> set allStates. \<not> isTerminal s}))"
    and "iter st' = Suc (iter st)"
    and "piPolicy st' = piPolicy st"
    and "piMode st' = piMode st"
    and "piEvalSweepsLeft st' = piEvalSweepsLeft st"
    and "status st' = (if lastDelta st' < 1 / 10000 then ConvergedDelta else RunningVIStep)"
proof -
  let ?st2 = "valueIterationSweep inp (st\<lparr>status := RunningVIStep\<rparr>)"
  let ?st3 = "(if lastDelta ?st2 < 1 / 10000
               then ?st2\<lparr>status := ConvergedDelta, running := False\<rparr> else ?st2)"
  have eq: "st' = ?st3\<lparr>iter := iter ?st3 + 1\<rparr>"
    using doOneStep_VI [OF assms(1,2)] assms(3) by (simp add: Let_def)
  have v: "V ?st2 = sweepF inp (V st)" by (simp add: V_valueIterationSweep)
  have po: "policy ?st2 = greedyPolicyFromV inp (sweepF inp (V st))"
    by (simp add: policy_valueIterationSweep)
  have d: "lastDelta ?st2 =
           Max (insert 0 ((\<lambda>s. \<bar>sweepF inp (V st) s - V st s\<bar>) ` {s \<in> set allStates. \<not> isTerminal s}))"
    by (simp add: lastDelta_valueIterationSweep)
  have o: "iter ?st2 = iter st" "piPolicy ?st2 = piPolicy st" "piMode ?st2 = piMode st"
    "piEvalSweepsLeft ?st2 = piEvalSweepsLeft st" "status ?st2 = RunningVIStep"
    by (simp_all add: other_valueIterationSweep)
  show "V st' = sweepF inp (V st)" using eq v by simp
  show "policy st' = greedyPolicyFromV inp (sweepF inp (V st))" using eq po by simp
  show dl: "lastDelta st' =
           Max (insert 0 ((\<lambda>s. \<bar>sweepF inp (V st) s - V st s\<bar>) ` {s \<in> set allStates. \<not> isTerminal s}))"
    using eq d by simp
  show "iter st' = Suc (iter st)" using eq o by simp
  show "piPolicy st' = piPolicy st" using eq o by simp
  show "piMode st' = piMode st" using eq o by simp
  show "piEvalSweepsLeft st' = piEvalSweepsLeft st" using eq o by simp
  have "lastDelta st' = lastDelta ?st2" using eq by simp
  then show "status st' = (if lastDelta st' < 1 / 10000 then ConvergedDelta else RunningVIStep)"
    using eq o by simp
qed

lemma doOneStep_PI_EVAL:
  assumes "algo inp = PI" and "int (iter st) < maxIters inp" and "piMode st = EVAL"
    and "\<forall>s\<in>set allStates. \<not> isTerminal s \<longrightarrow> piPolicy st s \<noteq> None"
  shows "doOneStep inp st =
     Inr (st\<lparr>status := RunningPIStep EVAL,
             V := evalF inp (piPolicy st) (V st),
             lastDelta := deltaLoop (evalF inp (piPolicy st) (V st)) (V st) allStates 0,
             piEvalSweepsLeft := piEvalSweepsLeft st - 1,
             piMode := (if piEvalSweepsLeft st - 1 \<le> 0 then IMPROVE else EVAL),
             policy := piPolicy st,
             iter := Suc (iter st)\<rparr>)"
proof -
  let ?st1 = "st\<lparr>status := RunningPIStep EVAL\<rparr>"
  have "policyIterationStep inp ?st1 =
     Inr (?st1\<lparr>V := evalF inp (piPolicy st) (V st),
             lastDelta := deltaLoop (evalF inp (piPolicy st) (V st)) (V st) allStates 0,
             piEvalSweepsLeft := piEvalSweepsLeft st - 1,
             piMode := (if piEvalSweepsLeft st - 1 \<le> 0 then IMPROVE else EVAL),
             policy := piPolicy st\<rparr>)"
    using assms(3) by (intro policyIterationStep_EVAL assms(4)) simp_all
  then show ?thesis using assms(1,2,3) by (simp add: doOneStep_def Let_def)
qed

lemma doOneStep_PI_IMPROVE:
  assumes "algo inp = PI" and "int (iter st) < maxIters inp" and "piMode st = IMPROVE"
  shows "doOneStep inp st =
     Inr (st\<lparr>piPolicy := improveF inp (V st) (piPolicy st),
             policy := improveF inp (V st) (piPolicy st),
             lastDelta := 0, piMode := EVAL, piEvalSweepsLeft := 10,
             status := (if improveF inp (V st) (piPolicy st) = piPolicy st
                        then ConvergedPolicy else PIImproved),
             running := (if improveF inp (V st) (piPolicy st) = piPolicy st
                         then False else running st),
             iter := Suc (iter st)\<rparr>)"
proof -
  let ?st1 = "st\<lparr>status := RunningPIStep IMPROVE\<rparr>"
  have "policyIterationStep inp ?st1 =
     Inr (?st1\<lparr>piPolicy := improveF inp (V st) (piPolicy st),
             policy := improveF inp (V st) (piPolicy st),
             lastDelta := 0, piMode := EVAL, piEvalSweepsLeft := 10,
             status := (if improveF inp (V st) (piPolicy st) = piPolicy st
                        then ConvergedPolicy else PIImproved),
             running := (if improveF inp (V st) (piPolicy st) = piPolicy st
                         then False else running st)\<rparr>)"
    using assms(3) by (intro policyIterationStep_IMPROVE) simp_all
  then show ?thesis using assms(1,2,3) by (simp add: doOneStep_def Let_def)
qed

subsection \<open>The invariant\<close>

lemma wellFormed_resetAll: "wellFormed (resetAll st)"
  by (simp add: resetAll_eq wellFormed_def)

lemma greedyLoop_snd_Some: "bestA = Some y \<Longrightarrow> \<exists>z. snd (greedyLoop q as (bestQ, bestA)) = Some z"
  by (induction as arbitrary: bestQ bestA y) simp_all

lemma sweepF_terminal: "isTerminal s \<Longrightarrow> sweepF inp v s = 0"
  by (simp add: sweepF_def terminal_allStates)

lemma evalF_terminal: "isTerminal s \<Longrightarrow> evalF inp pol v s = 0"
  by (simp add: evalF_def terminal_allStates)

lemma improveF_terminal: "isTerminal s \<Longrightarrow> improveF inp v pol s = pol s"
  by (simp add: improveF_def)

lemma improveF_Some:
  "pol s \<noteq> None \<Longrightarrow> improveF inp v pol s \<noteq> None"
  using greedyLoop_snd_Some [of "pol s" _ "qValue inp v s" ACTIONS "- 1000000000"]
  by (auto simp: improveF_def)

lemma doOneStep_total:
  assumes "wellFormed st"
  shows "\<exists>st'. doOneStep inp st = Inr st' \<and> wellFormed st'"
proof (cases "int (iter st) \<ge> maxIters inp")
  case True
  then show ?thesis using assms by (simp add: doOneStep_guard wellFormed_def)
next
  case guard: False
  then have lt: "int (iter st) < maxIters inp" by simp
  show ?thesis
  proof (cases "algo inp")
    case VI
    obtain st' where st': "doOneStep inp st = Inr st'"
      using doOneStep_VI [OF VI lt] by blast
    note f = doOneStep_VI_fields [OF VI lt st']
    have "wellFormed st'"
      using assms by (simp add: wellFormed_def f(1,5,6,7) sweepF_terminal)
    with st' show ?thesis by blast
  next
    case PI
    have pol: "\<forall>s\<in>set allStates. \<not> isTerminal s \<longrightarrow> piPolicy st s \<noteq> None"
      using assms by (simp add: wellFormed_def)
    show ?thesis
    proof (cases "piMode st")
      case EVAL
      show ?thesis
        using assms EVAL
        by (simp add: doOneStep_PI_EVAL [OF PI lt EVAL pol] wellFormed_def evalF_terminal)
    next
      case IMPROVE
      have imp: "\<forall>s\<in>set allStates. \<not> isTerminal s \<longrightarrow>
                   improveF inp (V st) (piPolicy st) s \<noteq> None"
        using pol improveF_Some by blast
      show ?thesis
        using assms IMPROVE imp
        by (simp add: doOneStep_PI_IMPROVE [OF PI lt IMPROVE] wellFormed_def improveF_terminal)
    qed
  qed
qed

lemma reachable_wellFormed: "reachable st \<Longrightarrow> wellFormed st"
proof (induction rule: reachable.induct)
  case (reachable_reset st)
  show ?case by (rule wellFormed_resetAll)
next
  case (reachable_step st inp st')
  then show ?case using doOneStep_total [of st inp] by auto
next
  case (reachable_flags st b x)
  then show ?case by (simp add: wellFormed_def)
qed

lemma doOneStep_iter:
  assumes "int (iter st) < maxIters inp" and "doOneStep inp st = Inr st'"
  shows "iter st' = Suc (iter st) \<and> status st' \<noteq> ReachedMax"
  using assms
  by (auto simp: doOneStep_def Let_def policyIterationStep_def valueIterationSweep_def
        case_prod_beta split: if_splits sum.splits piMode.splits)

subsection \<open>Sequences of steps\<close>

lemma steps_append:
  "steps (xs @ ys) st = (case steps xs st of Inl e \<Rightarrow> Inl e | Inr st' \<Rightarrow> steps ys st')"
  by (induction xs arbitrary: st) (simp_all split: sum.splits)

lemma steps_guard:
  "int (iter st) \<ge> maxIters inp \<Longrightarrow> steps (replicate (Suc m) inp) st = Inr (st\<lparr>status := ReachedMax\<rparr>)"
proof (induction m arbitrary: st)
  case 0
  then show ?case by (simp add: doOneStep_guard)
next
  case (Suc m)
  have "int (iter (st\<lparr>status := ReachedMax\<rparr>)) \<ge> maxIters inp" using Suc.prems by simp
  from Suc.IH [OF this] show ?case using Suc.prems by (simp add: doOneStep_guard)
qed

lemma steps_below_cap:
  assumes "wellFormed st" and "int (iter st) + int k \<le> maxIters inp"
  shows "\<exists>st'. steps (replicate k inp) st = Inr st' \<and> wellFormed st' \<and> iter st' = iter st + k
           \<and> (0 < k \<longrightarrow> status st' \<noteq> ReachedMax)"
  using assms
proof (induction k arbitrary: st)
  case 0
  then show ?case by simp
next
  case (Suc k)
  have lt: "int (iter st) < maxIters inp" using Suc.prems(2) by simp
  obtain st1 where st1: "doOneStep inp st = Inr st1" "wellFormed st1"
    using doOneStep_total [OF Suc.prems(1), of inp] by blast
  have it: "iter st1 = Suc (iter st)" "status st1 \<noteq> ReachedMax"
    using doOneStep_iter [OF lt st1(1)] by simp_all
  have "int (iter st1) + int k \<le> maxIters inp" using Suc.prems(2) it by simp
  from Suc.IH [OF st1(2) this]
  obtain st' where st': "steps (replicate k inp) st1 = Inr st'" "wellFormed st'"
    "iter st' = iter st1 + k" "0 < k \<longrightarrow> status st' \<noteq> ReachedMax" by blast
  have "status st' \<noteq> ReachedMax"
  proof (cases k)
    case 0
    then show ?thesis using st'(1) it(2) by simp
  next
    case (Suc j)
    then show ?thesis using st'(4) by simp
  qed
  then show ?case using st1(1) st' it by simp
qed

lemma runWhile_idle: "\<not> running st \<Longrightarrow> runWhile inp st = Inr st"
  by (subst runWhile.simps) simp

lemma runWhile_at_cap: "int (iter st) \<ge> maxIters inp \<Longrightarrow> runWhile inp st = Inr st"
  by (subst runWhile.simps) simp

lemma runLoop_toggle:
  "running st \<Longrightarrow> runLoop inp st = Inr (st\<lparr>running := False, status := Stopped\<rparr>)"
  by (simp add: runLoop_def)

subsection \<open>Value Iteration above the sentinel\<close>

lemmas grid_evals = nextStateDet_def isTerminal_iff isWall_iff inBounds_def NROWS_def NCOLS_def
  transitions_def ACTIONS_def reward_def TERMINALS_def qValue_def allStates_iff Let_def

lemma V_resetAll: "V (resetAll st) = (\<lambda>_. 0)"
  by (simp add: resetAll_eq)

lemma sweepF_above_sentinel:
  assumes "s \<in> set allStates" and "\<not> isTerminal s"
    and "\<exists>a. - 1000000000 \<le> qValue inp v s a"
  shows "sweepF inp v s = Max ((\<lambda>a. \<Sum>t\<leftarrow>transitions inp s a. p t * (r t + gamma inp * v (ns t))) ` set ACTIONS)"
proof -
  let ?Q = "qValue inp v s ` set ACTIONS"
  have fin: "finite ?Q" and ne: "?Q \<noteq> {}" by (simp_all add: ACTIONS_def)
  from assms(3) obtain a where a: "- 1000000000 \<le> qValue inp v s a" by blast
  have "a \<in> set ACTIONS" by (simp add: set_ACTIONS)
  then have "qValue inp v s a \<le> Max ?Q" using fin by simp
  with a have "- 1000000000 \<le> Max ?Q" by linarith
  then have "Max (insert (- 1000000000) ?Q) = Max ?Q"
    using fin ne by (simp add: max_def)
  moreover have "?Q = (\<lambda>a. \<Sum>t\<leftarrow>transitions inp s a. p t * (r t + gamma inp * v (ns t))) ` set ACTIONS"
    by (rule image_cong) (simp_all add: qValue_eq)
  ultimately show ?thesis using assms(1,2) by (simp add: sweepF_def bestLoop_Max)
qed

lemma delta_all_states:
  fixes v w :: "state \<Rightarrow> real"
  assumes "\<forall>s. isTerminal s \<longrightarrow> v s = 0" and "\<forall>s. isTerminal s \<longrightarrow> w s = 0"
  shows "Max (insert 0 ((\<lambda>s. \<bar>w s - v s\<bar>) ` {s \<in> set allStates. \<not> isTerminal s}))
         = Max ((\<lambda>s. \<bar>w s - v s\<bar>) ` set allStates)"
proof -
  have t: "isTerminal (0, 4)" by (simp add: isTerminal_iff)
  have "(\<lambda>s. \<bar>w s - v s\<bar>) ` set allStates
        = insert 0 ((\<lambda>s. \<bar>w s - v s\<bar>) ` {s \<in> set allStates. \<not> isTerminal s})"
  proof (rule set_eqI, rule iffI)
    fix x assume "x \<in> (\<lambda>s. \<bar>w s - v s\<bar>) ` set allStates"
    then obtain s where s: "s \<in> set allStates" "x = \<bar>w s - v s\<bar>" by blast
    show "x \<in> insert 0 ((\<lambda>s. \<bar>w s - v s\<bar>) ` {s \<in> set allStates. \<not> isTerminal s})"
    proof (cases "isTerminal s")
      case True
      then have "x = 0" using s assms by simp
      then show ?thesis by simp
    next
      case False
      then show ?thesis using s by blast
    qed
  next
    fix x assume "x \<in> insert 0 ((\<lambda>s. \<bar>w s - v s\<bar>) ` {s \<in> set allStates. \<not> isTerminal s})"
    then consider "x = 0" | "x \<in> (\<lambda>s. \<bar>w s - v s\<bar>) ` {s \<in> set allStates. \<not> isTerminal s}" by blast
    then show "x \<in> (\<lambda>s. \<bar>w s - v s\<bar>) ` set allStates"
    proof cases
      case 1
      have "(0, 4) \<in> set allStates" using t by (rule terminal_allStates)
      moreover have "\<bar>w (0, 4) - v (0, 4)\<bar> = 0" using t assms by simp
      ultimately show ?thesis using 1 by (metis (mono_tags, lifting) image_eqI)
    next
      case 2
      then show ?thesis by blast
    qed
  qed
  then show ?thesis by simp
qed

lemma valueIterationSweep_above_sentinel:
  assumes "reachable st"
  shows "(\<forall>s\<in>set allStates. \<not> isTerminal s \<longrightarrow>
            (\<exists>a. - 1000000000 \<le> qValue inp (V st) s a) \<longrightarrow>
            V (valueIterationSweep inp st) s =
              Max ((\<lambda>a. \<Sum>t\<leftarrow>transitions inp s a. p t * (r t + gamma inp * V st (ns t))) ` set ACTIONS))
       \<and> (\<forall>s. isTerminal s \<longrightarrow> V (valueIterationSweep inp st) s = 0)
       \<and> lastDelta (valueIterationSweep inp st) =
            Max ((\<lambda>s. \<bar>V (valueIterationSweep inp st) s - V st s\<bar>) ` set allStates)"
proof -
  have wf: "wellFormed st" using assms by (rule reachable_wellFormed)
  have t0: "\<forall>s. isTerminal s \<longrightarrow> V st s = 0" using wf by (simp add: wellFormed_def)
  have t1: "\<forall>s. isTerminal s \<longrightarrow> sweepF inp (V st) s = 0" by (simp add: sweepF_terminal)
  show ?thesis
    by (simp add: V_valueIterationSweep lastDelta_valueIterationSweep sweepF_above_sentinel
          sweepF_terminal delta_all_states [OF t0 t1])
qed

lemma greedy_above_sentinel:
  assumes "s \<in> set allStates" and "\<not> isTerminal s"
    and "\<exists>a. - 1000000000 < qValue inp v s a"
  shows "greedyPolicyFromV inp v s = firstMaximiser (qValue inp v s)"
    and "improveF inp v pol s = firstMaximiser (qValue inp v s)"
proof -
  from assms(3) have ex: "\<exists>a\<in>set ACTIONS. - 1000000000 < qValue inp v s a"
    by (simp add: set_ACTIONS)
  show "greedyPolicyFromV inp v s = firstMaximiser (qValue inp v s)"
    using assms(1,2) by (simp add: greedyPolicyFromV_eq greedyLoop_firstMaximiser [OF ex])
  show "improveF inp v pol s = firstMaximiser (qValue inp v s)"
    using assms(1,2) by (simp add: improveF_def greedyLoop_firstMaximiser [OF ex])
qed

lemma greedy_terminal:
  "isTerminal s \<Longrightarrow> greedyPolicyFromV inp v s = None"
  by (simp add: greedyPolicyFromV_eq)

subsection \<open>Tables as lists\<close>

lemma tabOf_map: "tabOf d (map f allStates) = (\<lambda>s. if s \<in> set allStates then f s else d)"
  by (rule ext) (simp add: tabOf_def map_of_zip_map)

lemma tabOf_outside: "s \<notin> set allStates \<Longrightarrow> tabOf d xs s = d"
  by (auto simp: tabOf_def split: option.splits dest: map_of_SomeD set_zip_leftD)

lemma evalF_tab: "evalF inp (tabOf None ps) (tabOf 0 xs) = tabOf 0 (evalTab inp ps xs)"
proof (rule ext)
  fix s
  show "evalF inp (tabOf None ps) (tabOf 0 xs) s = tabOf 0 (evalTab inp ps xs) s"
    using tabOf_outside [of s "0::real" xs] by (simp add: evalTab_def tabOf_map evalF_def)
qed

lemma improveF_tab: "improveF inp (tabOf 0 xs) (tabOf None ps) = tabOf None (improveTab inp xs ps)"
proof (rule ext)
  fix s
  show "improveF inp (tabOf 0 xs) (tabOf None ps) s = tabOf None (improveTab inp xs ps) s"
    using tabOf_outside [of s "None::action option" ps]
    by (simp add: improveTab_def tabOf_map improveF_def)
qed

lemma evalF_funpow_tab:
  "(evalF inp (tabOf None ps) ^^ k) (tabOf 0 xs) = tabOf 0 ((evalTab inp ps ^^ k) xs)"
  by (induction k) (simp_all add: evalF_tab)

lemma PI_eval_steps:
  assumes "algo inp = PI" and "piMode st = EVAL"
    and "\<forall>s\<in>set allStates. \<not> isTerminal s \<longrightarrow> piPolicy st s \<noteq> None"
    and "int (Suc k) \<le> piEvalSweepsLeft st" and "int (iter st) + int (Suc k) \<le> maxIters inp"
  shows "\<exists>st'. steps (replicate (Suc k) inp) st = Inr st'
           \<and> V st' = (evalF inp (piPolicy st) ^^ Suc k) (V st)
           \<and> piPolicy st' = piPolicy st
           \<and> piEvalSweepsLeft st' = piEvalSweepsLeft st - int (Suc k)
           \<and> piMode st' = (if piEvalSweepsLeft st - int (Suc k) \<le> 0 then IMPROVE else EVAL)
           \<and> iter st' = iter st + Suc k
           \<and> status st' = RunningPIStep EVAL
           \<and> running st' = running st"
  using assms
proof (induction k arbitrary: st)
  case 0
  have lt: "int (iter st) < maxIters inp" using "0.prems"(5) by simp
  show ?case
    by (simp add: doOneStep_PI_EVAL [OF "0.prems"(1) lt "0.prems"(2,3)])
next
  case (Suc k)
  have lt: "int (iter st) < maxIters inp" using Suc.prems(5) by simp
  let ?st1 = "st\<lparr>status := RunningPIStep EVAL,
             V := evalF inp (piPolicy st) (V st),
             lastDelta := deltaLoop (evalF inp (piPolicy st) (V st)) (V st) allStates 0,
             piEvalSweepsLeft := piEvalSweepsLeft st - 1,
             piMode := (if piEvalSweepsLeft st - 1 \<le> 0 then IMPROVE else EVAL),
             policy := piPolicy st,
             iter := Suc (iter st)\<rparr>"
  have s1: "doOneStep inp st = Inr ?st1"
    by (rule doOneStep_PI_EVAL [OF Suc.prems(1) lt Suc.prems(2,3)])
  have m1: "piMode ?st1 = EVAL" using Suc.prems(4) by simp
  have p1: "\<forall>s\<in>set allStates. \<not> isTerminal s \<longrightarrow> piPolicy ?st1 s \<noteq> None"
    using Suc.prems(3) by simp
  have n1: "int (Suc k) \<le> piEvalSweepsLeft ?st1" using Suc.prems(4) by simp
  have i1: "int (iter ?st1) + int (Suc k) \<le> maxIters inp" using Suc.prems(5) by simp
  from Suc.IH [OF Suc.prems(1) m1 p1 n1 i1]
  obtain st' where st': "steps (replicate (Suc k) inp) ?st1 = Inr st'"
    "V st' = (evalF inp (piPolicy ?st1) ^^ Suc k) (V ?st1)"
    "piPolicy st' = piPolicy ?st1"
    "piEvalSweepsLeft st' = piEvalSweepsLeft ?st1 - int (Suc k)"
    "piMode st' = (if piEvalSweepsLeft ?st1 - int (Suc k) \<le> 0 then IMPROVE else EVAL)"
    "iter st' = iter ?st1 + Suc k"
    "status st' = RunningPIStep EVAL"
    "running st' = running ?st1" by blast
  have v: "V st' = (evalF inp (piPolicy st) ^^ Suc (Suc k)) (V st)"
    using st'(2) by (simp add: funpow_swap1)
  have "steps (replicate (Suc (Suc k)) inp) st = Inr st'"
    using s1 st'(1) by simp
  moreover have "piEvalSweepsLeft st' = piEvalSweepsLeft st - int (Suc (Suc k))"
    using st'(4) by simp
  moreover have "piMode st' = (if piEvalSweepsLeft st - int (Suc (Suc k)) \<le> 0 then IMPROVE else EVAL)"
    using st'(5) by simp
  moreover have "piPolicy st' = piPolicy st" "iter st' = iter st + Suc (Suc k)"
    "running st' = running st"
    using st'(3,6,8) by simp_all
  ultimately show ?case using v st'(7) by blast
qed

lemma doOneStep_PI_IMPROVE_fields:
  assumes "algo inp = PI" and "int (iter st) < maxIters inp" and "piMode st = IMPROVE"
  shows "\<exists>st'. doOneStep inp st = Inr st'
           \<and> piPolicy st' = improveF inp (V st) (piPolicy st)
           \<and> policy st' = improveF inp (V st) (piPolicy st)
           \<and> V st' = V st \<and> piMode st' = EVAL \<and> piEvalSweepsLeft st' = 10
           \<and> iter st' = Suc (iter st)
           \<and> status st' = (if improveF inp (V st) (piPolicy st) = piPolicy st
                           then ConvergedPolicy else PIImproved)
           \<and> running st' = (if improveF inp (V st) (piPolicy st) = piPolicy st
                            then False else running st)"
  by (simp add: doOneStep_PI_IMPROVE [OF assms])

lemma doOneStep_PI_EVAL_fields:
  assumes "algo inp = PI" and "int (iter st) < maxIters inp" and "piMode st = EVAL"
    and "\<forall>s\<in>set allStates. \<not> isTerminal s \<longrightarrow> piPolicy st s \<noteq> None"
  shows "\<exists>st'. doOneStep inp st = Inr st'
           \<and> V st' = evalF inp (piPolicy st) (V st)
           \<and> piPolicy st' = piPolicy st
           \<and> piEvalSweepsLeft st' = piEvalSweepsLeft st - 1
           \<and> piMode st' = (if piEvalSweepsLeft st - 1 \<le> 0 then IMPROVE else EVAL)
           \<and> iter st' = Suc (iter st)
           \<and> status st' = RunningPIStep EVAL
           \<and> running st' = running st"
  by (simp add: doOneStep_PI_EVAL [OF assms])

subsection \<open>The run of Policy Iteration with slip 3/4\<close>

lemmas table_evals = evalTab_def improveTab_def tabOf_def allStates_eq
  nextStateDet_def isTerminal_iff isWall_iff inBounds_def NROWS_def NCOLS_def
  transitions_def ACTIONS_def reward_def TERMINALS_def qValue_def Let_def

lemma uniformSlip_sel:
  "algo uniformSlipInputs = PI" "gamma uniformSlipInputs = 1" "slip uniformSlipInputs = 3 / 4"
  "stepReward uniformSlipInputs = 0" "maxIters uniformSlipInputs = 100"
  by (simp_all add: uniformSlipInputs_def)

lemma uniformSlip_phase1:
  "(evalTab uniformSlipInputs allRight ^^ 10) (map (\<lambda>_. 0) allStates) = uniformSlipT10"
  by (simp add: table_evals uniformSlip_sel allRight_def uniformSlipT10_def eval_nat_numeral)

lemma uniformSlip_improve1: "improveTab uniformSlipInputs uniformSlipT10 allRight = allUp"
  by (simp add: table_evals uniformSlip_sel allRight_def allUp_def uniformSlipT10_def)

lemma uniformSlip_phase2:
  "(evalTab uniformSlipInputs allUp ^^ 10) uniformSlipT10 = uniformSlipT21"
  by (simp add: table_evals uniformSlip_sel allUp_def uniformSlipT10_def uniformSlipT21_def eval_nat_numeral)

lemma uniformSlip_improve2: "improveTab uniformSlipInputs uniformSlipT21 allUp = allUp"
  by (simp add: table_evals uniformSlip_sel allUp_def uniformSlipT21_def)

lemma uniformSlip_values:
  "tabOf 0 uniformSlipT21 (0, 0) = 405354209155 / 274877906944"
  "tabOf 0 (evalTab uniformSlipInputs allUp uniformSlipT21) (0, 0) = 1676413799405 / 1099511627776"
  by (simp_all add: table_evals uniformSlip_sel allUp_def uniformSlipT21_def)

lemma allUp_neq_allRight: "tabOf None allUp \<noteq> tabOf None allRight"
proof
  assume "tabOf None allUp = tabOf None allRight"
  then have "tabOf None allUp (0, 0) = tabOf None allRight (0, 0)" by simp
  then show False
    by (simp add: allUp_def allRight_def tabOf_map allStates_iff inBounds_def isWall_iff
          isTerminal_iff NROWS_def NCOLS_def)
qed

lemma resetAll_tables:
  "V (resetAll st) = tabOf 0 (map (\<lambda>_. 0) allStates)"
  "piPolicy (resetAll st) = tabOf None allRight"
  by (auto simp: resetAll_eq tabOf_map allRight_def)

lemma tabOf_allRight_Some:
  "\<forall>s\<in>set allStates. \<not> isTerminal s \<longrightarrow> tabOf None allRight s \<noteq> None"
  by (simp add: allRight_def tabOf_map)

lemma tabOf_allUp_Some:
  "\<forall>s\<in>set allStates. \<not> isTerminal s \<longrightarrow> tabOf None allUp s \<noteq> None"
  by (simp add: allUp_def tabOf_map)

lemma uniformSlip_run:
  "\<exists>st22 st23.
     steps (replicate 22 uniformSlipInputs) (resetAll loadState) = Inr st22
     \<and> steps (replicate 23 uniformSlipInputs) (resetAll loadState) = Inr st23
     \<and> status st22 = ConvergedPolicy \<and> iter st22 = 22 \<and> piEvalSweepsLeft st22 = 10
     \<and> V st22 = tabOf 0 uniformSlipT21
     \<and> V st23 = tabOf 0 (evalTab uniformSlipInputs allUp uniformSlipT21)
     \<and> iter st23 = 23 \<and> piEvalSweepsLeft st23 = 9 \<and> status st23 = RunningPIStep EVAL"
proof -
  let ?inp = uniformSlipInputs
  let ?st0 = "resetAll loadState"
  note sel = uniformSlip_sel
  \<comment> \<open>steps 1 to 10: the first evaluation phase\<close>
  have m0: "piMode ?st0 = EVAL" and n0: "piEvalSweepsLeft ?st0 = 10" and i0: "iter ?st0 = 0"
    by (simp_all add: resetAll_eq)
  have p0: "\<forall>s\<in>set allStates. \<not> isTerminal s \<longrightarrow> piPolicy ?st0 s \<noteq> None"
    using tabOf_allRight_Some by (simp add: resetAll_tables)
  have "\<exists>st'. steps (replicate (Suc 9) ?inp) ?st0 = Inr st'
           \<and> V st' = (evalF ?inp (piPolicy ?st0) ^^ Suc 9) (V ?st0)
           \<and> piPolicy st' = piPolicy ?st0
           \<and> piEvalSweepsLeft st' = piEvalSweepsLeft ?st0 - int (Suc 9)
           \<and> piMode st' = (if piEvalSweepsLeft ?st0 - int (Suc 9) \<le> 0 then IMPROVE else EVAL)
           \<and> iter st' = iter ?st0 + Suc 9
           \<and> status st' = RunningPIStep EVAL
           \<and> running st' = running ?st0"
    using m0 p0 by (intro PI_eval_steps) (simp_all add: sel n0 i0)
  then obtain st10 where st10: "steps (replicate 10 ?inp) ?st0 = Inr st10"
    "V st10 = (evalF ?inp (piPolicy ?st0) ^^ 10) (V ?st0)"
    "piPolicy st10 = piPolicy ?st0" "piMode st10 = IMPROVE" "iter st10 = 10"
    by (auto simp: n0 i0)
  have v10: "V st10 = tabOf 0 uniformSlipT10"
    by (simp add: st10(2) resetAll_tables evalF_funpow_tab uniformSlip_phase1)
  have pol10: "piPolicy st10 = tabOf None allRight"
    by (simp add: st10(3) resetAll_tables)
  \<comment> \<open>step 11: the first improvement changes the policy\<close>
  have lt10: "int (iter st10) < maxIters ?inp" by (simp add: st10(5) sel)
  have imp1: "improveF ?inp (V st10) (piPolicy st10) = tabOf None allUp"
    by (simp add: v10 pol10 improveF_tab uniformSlip_improve1)
  obtain st11 where st11: "doOneStep ?inp st10 = Inr st11"
    "piPolicy st11 = tabOf None allUp" "V st11 = tabOf 0 uniformSlipT10"
    "piMode st11 = EVAL" "piEvalSweepsLeft st11 = 10" "iter st11 = 11"
    using doOneStep_PI_IMPROVE_fields [OF sel(1) lt10 st10(4)] imp1 v10 st10(5)
    by auto
  \<comment> \<open>steps 12 to 21: the second evaluation phase\<close>
  have p11: "\<forall>s\<in>set allStates. \<not> isTerminal s \<longrightarrow> piPolicy st11 s \<noteq> None"
    using tabOf_allUp_Some by (simp add: st11(2))
  have "\<exists>st'. steps (replicate (Suc 9) ?inp) st11 = Inr st'
           \<and> V st' = (evalF ?inp (piPolicy st11) ^^ Suc 9) (V st11)
           \<and> piPolicy st' = piPolicy st11
           \<and> piEvalSweepsLeft st' = piEvalSweepsLeft st11 - int (Suc 9)
           \<and> piMode st' = (if piEvalSweepsLeft st11 - int (Suc 9) \<le> 0 then IMPROVE else EVAL)
           \<and> iter st' = iter st11 + Suc 9
           \<and> status st' = RunningPIStep EVAL
           \<and> running st' = running st11"
    using st11(4) p11 by (intro PI_eval_steps) (simp_all add: sel st11(5,6))
  then obtain st21 where st21: "steps (replicate 10 ?inp) st11 = Inr st21"
    "V st21 = (evalF ?inp (piPolicy st11) ^^ 10) (V st11)"
    "piPolicy st21 = piPolicy st11" "piMode st21 = IMPROVE" "iter st21 = 21"
    by (auto simp: st11(5,6))
  have v21: "V st21 = tabOf 0 uniformSlipT21"
    by (simp add: st21(2) st11(2,3) evalF_funpow_tab uniformSlip_phase2)
  have pol21: "piPolicy st21 = tabOf None allUp"
    by (simp add: st21(3) st11(2))
  \<comment> \<open>step 22: the second improvement changes nothing\<close>
  have lt21: "int (iter st21) < maxIters ?inp" by (simp add: st21(5) sel)
  have imp2: "improveF ?inp (V st21) (piPolicy st21) = piPolicy st21"
    by (simp add: v21 pol21 improveF_tab uniformSlip_improve2)
  obtain st22 where st22: "doOneStep ?inp st21 = Inr st22"
    "piPolicy st22 = tabOf None allUp" "V st22 = tabOf 0 uniformSlipT21"
    "piMode st22 = EVAL" "piEvalSweepsLeft st22 = 10" "iter st22 = 22"
    "status st22 = ConvergedPolicy"
    using doOneStep_PI_IMPROVE_fields [OF sel(1) lt21 st21(4)] imp2 v21 pol21 st21(5)
    by auto
  \<comment> \<open>step 23: a further evaluation sweep\<close>
  have lt22: "int (iter st22) < maxIters ?inp" by (simp add: st22(6) sel)
  have p22: "\<forall>s\<in>set allStates. \<not> isTerminal s \<longrightarrow> piPolicy st22 s \<noteq> None"
    using tabOf_allUp_Some by (simp add: st22(2))
  obtain st23 where st23: "doOneStep ?inp st22 = Inr st23"
    "V st23 = tabOf 0 (evalTab ?inp allUp uniformSlipT21)"
    "piEvalSweepsLeft st23 = 9" "iter st23 = 23" "status st23 = RunningPIStep EVAL"
    using doOneStep_PI_EVAL_fields [OF sel(1) lt22 st22(4) p22] st22(2,3,5,6)
    by (auto simp: evalF_tab)
  \<comment> \<open>the calls in sequence\<close>
  have l22: "replicate 22 ?inp = replicate 10 ?inp @ ?inp # replicate 10 ?inp @ [?inp]"
    by (simp add: numeral_eq_Suc)
  have l23: "replicate 23 ?inp = replicate 22 ?inp @ [?inp]"
    by (simp add: numeral_eq_Suc replicate_append_same)
  have r22: "steps (replicate 22 ?inp) ?st0 = Inr st22"
    by (simp only: l22 steps_append st10(1) steps.simps st11(1) st21(1) st22(1) sum.case)
  have r23: "steps (replicate 23 ?inp) ?st0 = Inr st23"
    by (simp only: l23 steps_append r22 steps.simps st23(1) sum.case)
  from r22 r23 st22 st23 show ?thesis by blast
qed


subsection \<open>Reads of the value table stay inside the states\<close>

lemma transitions_ns:
  "s \<in> set allStates \<Longrightarrow> t \<in> set (transitions inp s a) \<Longrightarrow> ns t \<in> set allStates"
  by (auto simp: transitions_def transitionsLoop_eq Let_def nextStateDet_allStates split: if_splits)

lemma qValue_cong:
  assumes "\<forall>k\<in>set allStates. v k = w k" and "s \<in> set allStates"
  shows "qValue inp v s a = qValue inp w s a"
proof -
  have "map (\<lambda>t. p t * (r t + gamma inp * v (ns t))) (transitions inp s a)
        = map (\<lambda>t. p t * (r t + gamma inp * w (ns t))) (transitions inp s a)"
    using assms transitions_ns [of s _ inp a] by (intro map_cong refl) simp
  then show ?thesis by (simp only: qValue_eq)
qed

subsection \<open>Facts about the example inputs\<close>

lemma reachable_steps:
  "reachable st \<Longrightarrow> steps inps st = Inr st' \<Longrightarrow> reachable st'"
proof (induction inps arbitrary: st)
  case Nil
  then show ?case by simp
next
  case (Cons inp inps)
  from Cons.prems(2) obtain st1 where s1: "doOneStep inp st = Inr st1" "steps inps st1 = Inr st'"
    by (auto split: sum.splits)
  have "reachable st1" using Cons.prems(1) s1(1) by (rule reachable_step)
  then show ?case using s1(2) by (rule Cons.IH)
qed

lemma running_update_same: "running (st::run) = b \<Longrightarrow> st\<lparr>running := b\<rparr> = st"
  by (cases st) simp

lemma example_sel:
  "algo exampleInputs = VI" "gamma exampleInputs = 9 / 10" "slip exampleInputs = 1 / 5"
  "stepReward exampleInputs = - 1 / 25" "maxIters exampleInputs = 100"
  "algo changedRewardInputs = VI" "gamma changedRewardInputs = 9 / 10"
  "slip changedRewardInputs = 1 / 5" "stepReward changedRewardInputs = - 1"
  "maxIters changedRewardInputs = 100"
  by (simp_all add: exampleInputs_def changedRewardInputs_def)

lemma reset_fields:
  "iter (resetAll st) = 0" "piMode (resetAll st) = EVAL" "piEvalSweepsLeft (resetAll st) = 10"
  "status (resetAll st) = Ready"
  by (simp_all add: resetAll_eq)

lemma reset_policy_Some:
  "\<forall>s\<in>set allStates. \<not> isTerminal s \<longrightarrow> piPolicy (resetAll st) s \<noteq> None"
  by (simp add: resetAll_eq)


lemma uniformSlip_ten:
  "\<exists>st10. steps (replicate 10 uniformSlipInputs) (resetAll loadState) = Inr st10
      \<and> reachable st10 \<and> piMode st10 = IMPROVE \<and> iter st10 = 10"
proof -
  let ?inp = uniformSlipInputs
  let ?st0 = "resetAll loadState"
  have "\<exists>st'. steps (replicate (Suc 9) ?inp) ?st0 = Inr st'
           \<and> V st' = (evalF ?inp (piPolicy ?st0) ^^ Suc 9) (V ?st0)
           \<and> piPolicy st' = piPolicy ?st0
           \<and> piEvalSweepsLeft st' = piEvalSweepsLeft ?st0 - int (Suc 9)
           \<and> piMode st' = (if piEvalSweepsLeft ?st0 - int (Suc 9) \<le> 0 then IMPROVE else EVAL)
           \<and> iter st' = iter ?st0 + Suc 9
           \<and> status st' = RunningPIStep EVAL
           \<and> running st' = running ?st0"
    using reset_policy_Some
    by (intro PI_eval_steps) (simp_all add: uniformSlip_sel reset_fields)
  then obtain st10 where st10: "steps (replicate 10 ?inp) ?st0 = Inr st10"
    "piMode st10 = IMPROVE" "iter st10 = 10"
    by (auto simp: reset_fields)
  have "reachable ?st0" by (rule reachable_reset)
  then have "reachable st10" using st10(1) by (rule reachable_steps)
  with st10 show ?thesis by blast
qed

lemma hugePenaltyPI_sel:
  "algo hugePenaltyPIInputs = PI" "gamma hugePenaltyPIInputs = 0" "slip hugePenaltyPIInputs = 0"
  "stepReward hugePenaltyPIInputs = - 2000000000" "maxIters hugePenaltyPIInputs = 100"
  by (simp_all add: hugePenaltyPIInputs_def)

lemma hugePenaltyPI_q:
  "qValue hugePenaltyPIInputs v (2, 0) a = - 2000000000"
  by (cases a)
     (simp_all add: hugePenaltyPI_sel qValue_def transitions_def ACTIONS_def nextStateDet_def
        isTerminal_iff isWall_iff inBounds_def NROWS_def NCOLS_def reward_def TERMINALS_def Let_def)

lemma hugePenaltyPI_eleven:
  "\<exists>st10 st11. steps (replicate 10 hugePenaltyPIInputs) (resetAll loadState) = Inr st10
      \<and> steps (replicate 11 hugePenaltyPIInputs) (resetAll loadState) = Inr st11
      \<and> piPolicy st11 (2, 0) = Some R"
proof -
  let ?inp = hugePenaltyPIInputs
  let ?st0 = "resetAll loadState"
  have "\<exists>st'. steps (replicate (Suc 9) ?inp) ?st0 = Inr st'
           \<and> V st' = (evalF ?inp (piPolicy ?st0) ^^ Suc 9) (V ?st0)
           \<and> piPolicy st' = piPolicy ?st0
           \<and> piEvalSweepsLeft st' = piEvalSweepsLeft ?st0 - int (Suc 9)
           \<and> piMode st' = (if piEvalSweepsLeft ?st0 - int (Suc 9) \<le> 0 then IMPROVE else EVAL)
           \<and> iter st' = iter ?st0 + Suc 9
           \<and> status st' = RunningPIStep EVAL
           \<and> running st' = running ?st0"
    using reset_policy_Some
    by (intro PI_eval_steps) (simp_all add: hugePenaltyPI_sel reset_fields)
  then obtain st10 where st10: "steps (replicate 10 ?inp) ?st0 = Inr st10"
    "piPolicy st10 = piPolicy ?st0" "piMode st10 = IMPROVE" "iter st10 = 10"
    by (auto simp: reset_fields)
  have lt: "int (iter st10) < maxIters ?inp" by (simp add: st10(4) hugePenaltyPI_sel)
  from doOneStep_PI_IMPROVE_fields [OF hugePenaltyPI_sel(1) lt st10(3)]
  obtain st11 where st11: "doOneStep ?inp st10 = Inr st11"
    "piPolicy st11 = improveF ?inp (V st10) (piPolicy st10)" by blast
  have s: "(2, 0) \<in> set allStates \<and> \<not> isTerminal (2, 0)" by (rule nonterminal_allStates)
  have "piPolicy st11 (2, 0) = piPolicy ?st0 (2, 0)"
    using s by (simp add: st11(2) st10(2) improveF_def ACTIONS_def hugePenaltyPI_q)
  also have "\<dots> = Some R" using s by (simp add: resetAll_eq)
  finally have p: "piPolicy st11 (2, 0) = Some R" .
  have l11: "replicate 11 ?inp = replicate 10 ?inp @ [?inp]"
    by (simp add: numeral_eq_Suc replicate_append_same)
  have "steps (replicate 11 ?inp) ?st0 = Inr st11"
    by (simp only: l11 steps_append st10(1) steps.simps st11(1) sum.case)
  with st10(1) p show ?thesis by blast
qed

subsection \<open>Sweeps with a discount factor or a slip probability outside the unit interval\<close>












subsection \<open>The policy that a Value Iteration step publishes\<close>

text \<open>
  After a Value Iteration step below the cap the published policy is \<^verbatim>\<open>greedyPolicyFromV\<close>
  of the value table that this same sweep produced: terminal states have no action, and a
  non-terminal state with some Q-value above \<^verbatim>\<open>-1e9\<close> has the first maximiser in the order
  U, D, L, R.
\<close>

lemma VI_step_policy_above_sentinel:
  assumes "algo inp = VI" and "int (iter st) < maxIters inp"
  shows "\<exists>st'. doOneStep inp st = Inr st'
           \<and> V st' = V (valueIterationSweep inp st)
           \<and> policy st' = greedyPolicyFromV inp (V st')
           \<and> (\<forall>s\<in>set allStates. \<not> isTerminal s \<longrightarrow>
                 (\<exists>a. - 1000000000 < qValue inp (V st') s a) \<longrightarrow>
                 policy st' s = firstMaximiser (qValue inp (V st') s))
           \<and> (\<forall>s. isTerminal s \<longrightarrow> policy st' s = None)"
proof -
  obtain st' where st': "doOneStep inp st = Inr st'"
    using doOneStep_VI [OF assms] by blast
  note f = doOneStep_VI_fields [OF assms st']
  have v: "V st' = V (valueIterationSweep inp st)" by (simp add: f(1) V_valueIterationSweep)
  have pol: "policy st' = greedyPolicyFromV inp (V st')" by (simp add: f(1,2))
  have tie: "\<forall>s\<in>set allStates. \<not> isTerminal s \<longrightarrow>
                 (\<exists>a. - 1000000000 < qValue inp (V st') s a) \<longrightarrow>
                 policy st' s = firstMaximiser (qValue inp (V st') s)"
    by (simp add: pol greedy_above_sentinel(1))
  have trm: "\<forall>s. isTerminal s \<longrightarrow> policy st' s = None"
    by (simp add: pol greedy_terminal)
  from st' v pol tie trm show ?thesis by blast
qed

section \<open>The claims\<close>

subsection \<open>C1: the Value Iteration sweep\<close>

text \<open>
  Claim C1. One sweep should set \<open>newV[s]\<close>, for every non-terminal state \<open>s\<close>, to the
  maximum over the four actions of the Q-value computed from the old value table, set
  terminal states to 0, and report as delta the largest change over all states. The
  lemma \<open>valueIterationSweep_above_sentinel\<close> shows all of this for the states where some
  Q-value is at least \<^verbatim>\<open>-1e9\<close>. Below that the sweep keeps its sentinel: with a step
  reward of \<open>- 2000000000\<close> the four Q-values at \<open>(2, 0)\<close> in the first sweep after a reset
  are all \<open>- 2000000000\<close>, and the sweep stores \<open>- 1000000000\<close>, which is none of them.
\<close>

theorem VI_sweep_sentinel_floor:
  "(2, 0) \<in> set allStates \<and> \<not> isTerminal (2, 0)
   \<and> map (qValue hugePenaltyInputs (V (resetAll loadState)) (2, 0)) ACTIONS
       = [- 2000000000, - 2000000000, - 2000000000, - 2000000000]
   \<and> V (valueIterationSweep hugePenaltyInputs (resetAll loadState)) (2, 0) = - 1000000000"
  by (simp add: V_valueIterationSweep V_resetAll sweepF_def hugePenaltyInputs_def grid_evals)

subsection \<open>C2: the transition model\<close>

text \<open>
  Claim C2. For a non-terminal state \<open>s\<close> and an action \<open>a\<close>, \<^verbatim>\<open>transitions(s, a)\<close> lists
  first the intended outcome \<open>nextStateDet s a\<close> with probability \<open>1 - slip\<close>, then the
  outcomes of the three other actions, each with probability \<open>slip / 3\<close>, in the order
  U, D, L, R; the deterministic move applies the offset of the action and stays at \<open>s\<close>
  when the target is out of bounds or a wall; the reward of a resulting state is its
  terminal reward when it is terminal and the step reward otherwise.
\<close>

theorem transitions_nonterminal:
  assumes "\<not> isTerminal s"
  shows "transitions inp s a =
           \<lparr>p = 1 - slip inp, ns = nextStateDet s a, r = reward inp (nextStateDet s a)\<rparr> #
           map (\<lambda>a2. \<lparr>p = slip inp / 3, ns = nextStateDet s a2, r = reward inp (nextStateDet s a2)\<rparr>)
               (filter (\<lambda>a2. a2 \<noteq> a) [U, D, L, R])
         \<and> length (filter (\<lambda>a2. a2 \<noteq> a) [U, D, L, R]) = 3
         \<and> nextStateDet s a =
             (let target = (fst s + fst (MOVE a), snd s + snd (MOVE a))
              in if \<not> inBounds target \<or> isWall target then s else target)
         \<and> (isTerminal k \<longrightarrow> map_of TERMINALS k = Some (reward inp k))
         \<and> (\<not> isTerminal k \<longrightarrow> reward inp k = stepReward inp)"
proof -
  have t: "transitions inp s a =
           \<lparr>p = 1 - slip inp, ns = nextStateDet s a, r = reward inp (nextStateDet s a)\<rparr> #
           map (\<lambda>a2. \<lparr>p = slip inp / 3, ns = nextStateDet s a2, r = reward inp (nextStateDet s a2)\<rparr>)
               (filter (\<lambda>a2. a2 \<noteq> a) [U, D, L, R])"
    using assms by (simp add: transitions_def transitionsLoop_eq Let_def ACTIONS_def)
  have l: "length (filter (\<lambda>a2. a2 \<noteq> a) [U, D, L, R]) = 3"
    by (cases a) simp_all
  have n: "nextStateDet s a =
             (let target = (fst s + fst (MOVE a), snd s + snd (MOVE a))
              in if \<not> inBounds target \<or> isWall target then s else target)"
    using assms by (simp add: nextStateDet_def Let_def split: prod.splits)
  have r1: "isTerminal k \<longrightarrow> map_of TERMINALS k = Some (reward inp k)"
    by (auto simp: isTerminal_def reward_def)
  have r2: "\<not> isTerminal k \<longrightarrow> reward inp k = stepReward inp"
    by (simp add: isTerminal_def reward_def)
  from t l n r1 r2 show ?thesis by blast
qed

theorem transitions_nonterminal_witness:
  "\<not> isTerminal (0, 3) \<and>
   transitions exampleInputs (0, 3) D =
     [\<lparr>p = 4 / 5, ns = (1, 3), r = - 1 / 25\<rparr>,
      \<lparr>p = 1 / 15, ns = (0, 3), r = - 1 / 25\<rparr>,
      \<lparr>p = 1 / 15, ns = (0, 2), r = - 1 / 25\<rparr>,
      \<lparr>p = 1 / 15, ns = (0, 4), r = 10\<rparr>]"
proof -
  have h: "\<not> isTerminal (0, 3)" by (simp add: isTerminal_iff)
  have n: "nextStateDet (0, 3) U = (0, 3)" "nextStateDet (0, 3) D = (1, 3)"
          "nextStateDet (0, 3) L = (0, 2)" "nextStateDet (0, 3) R = (0, 4)"
    by (simp_all add: nextStateDet_def isTerminal_iff isWall_iff inBounds_def NROWS_def NCOLS_def)
  have rw: "reward exampleInputs (0, 3) = - 1 / 25" "reward exampleInputs (1, 3) = - 1 / 25"
          "reward exampleInputs (0, 2) = - 1 / 25" "reward exampleInputs (0, 4) = 10"
    by (simp_all add: reward_def TERMINALS_def exampleInputs_def)
  have s: "slip exampleInputs = 1 / 5" by (simp add: exampleInputs_def)
  show ?thesis
    using h transitions_nonterminal [OF h, of exampleInputs D "(0, 4)"]
    by (simp add: n rw s)
qed

subsection \<open>C3: the evaluation phase of Policy Iteration\<close>

text \<open>
  Claim C3. In a reachable state in the evaluating phase, one step of Policy Iteration
  performs one sweep with the actions of the working policy (no maximum over actions):
  every non-terminal state gets the sum over the outcomes of its policy action of
  \<open>p * (r + gamma * V[ns])\<close> on the old table, terminal states get 0, the working policy is
  unchanged, the counter of remaining sweeps goes down by one, and the phase becomes
  improving exactly when the counter has reached 0. The counter is 10 after a reset and
  after every improvement step.
\<close>

theorem PI_evaluation_step:
  assumes "reachable st" and "piMode st = EVAL"
  shows "\<exists>st'. policyIterationStep inp st = Inr st'
           \<and> (\<forall>s\<in>set allStates. \<not> isTerminal s \<longrightarrow>
                 (\<exists>a. piPolicy st s = Some a \<and>
                      V st' s = (\<Sum>t\<leftarrow>transitions inp s a. p t * (r t + gamma inp * V st (ns t)))))
           \<and> (\<forall>s. isTerminal s \<longrightarrow> V st' s = 0)
           \<and> piPolicy st' = piPolicy st
           \<and> piEvalSweepsLeft st' = piEvalSweepsLeft st - 1
           \<and> (piMode st' = IMPROVE \<longleftrightarrow> piEvalSweepsLeft st' = 0)
           \<and> (piMode st' = EVAL \<longleftrightarrow> 0 < piEvalSweepsLeft st')
           \<and> piEvalSweepsLeft (resetAll st) = 10
           \<and> (\<forall>st2 st3. piMode st2 = IMPROVE \<longrightarrow> policyIterationStep inp st2 = Inr st3 \<longrightarrow>
                 piMode st3 = EVAL \<and> piEvalSweepsLeft st3 = 10)"
proof -
  have wf: "wellFormed st" using assms(1) by (rule reachable_wellFormed)
  have pol: "\<forall>s\<in>set allStates. \<not> isTerminal s \<longrightarrow> piPolicy st s \<noteq> None"
    using wf by (simp add: wellFormed_def)
  have n: "1 \<le> piEvalSweepsLeft st" using wf assms(2) by (simp add: wellFormed_def)
  let ?st' = "st\<lparr>V := evalF inp (piPolicy st) (V st),
                lastDelta := deltaLoop (evalF inp (piPolicy st) (V st)) (V st) allStates 0,
                piEvalSweepsLeft := piEvalSweepsLeft st - 1,
                piMode := (if piEvalSweepsLeft st - 1 \<le> 0 then IMPROVE else EVAL),
                policy := piPolicy st\<rparr>"
  have step: "policyIterationStep inp st = Inr ?st'"
    using assms(2) pol by (intro policyIterationStep_EVAL) simp_all
  have a: "\<forall>s\<in>set allStates. \<not> isTerminal s \<longrightarrow>
                 (\<exists>a. piPolicy st s = Some a \<and>
                      V ?st' s = (\<Sum>t\<leftarrow>transitions inp s a. p t * (r t + gamma inp * V st (ns t))))"
    using pol by (auto simp: qValue_eq evalF_def)
  have b: "\<forall>s. isTerminal s \<longrightarrow> V ?st' s = 0"
    by (simp add: evalF_terminal)
  have c: "piPolicy ?st' = piPolicy st" "piEvalSweepsLeft ?st' = piEvalSweepsLeft st - 1"
    by simp_all
  have d: "piMode ?st' = IMPROVE \<longleftrightarrow> piEvalSweepsLeft ?st' = 0"
    using n by auto
  have e: "piMode ?st' = EVAL \<longleftrightarrow> 0 < piEvalSweepsLeft ?st'"
    using n by auto
  have f: "piEvalSweepsLeft (resetAll st) = 10" by (simp add: resetAll_eq)
  have g: "\<forall>st2 st3. piMode st2 = IMPROVE \<longrightarrow> policyIterationStep inp st2 = Inr st3 \<longrightarrow>
                 piMode st3 = EVAL \<and> piEvalSweepsLeft st3 = 10"
    by (auto simp: policyIterationStep_def case_prod_beta Let_def)
  from step a b c d e f g show ?thesis by blast
qed

theorem PI_evaluation_step_witness:
  "reachable (resetAll loadState) \<and> piMode (resetAll loadState) = EVAL
   \<and> (\<exists>st'. policyIterationStep exampleInputs (resetAll loadState) = Inr st'
         \<and> V st' (0, 3) = 999 / 125 \<and> V st' (0, 4) = 0
         \<and> piEvalSweepsLeft st' = 9 \<and> piMode st' = EVAL)"
proof -
  let ?st0 = "resetAll loadState"
  have re: "reachable ?st0" by (rule reachable_reset)
  have ev: "piMode ?st0 = EVAL" by (rule reset_fields)
  from PI_evaluation_step [OF re ev, of exampleInputs]
  obtain st' where st': "policyIterationStep exampleInputs ?st0 = Inr st'"
    "\<forall>s\<in>set allStates. \<not> isTerminal s \<longrightarrow>
        (\<exists>a. piPolicy ?st0 s = Some a \<and>
             V st' s = (\<Sum>t\<leftarrow>transitions exampleInputs s a.
                          p t * (r t + gamma exampleInputs * V ?st0 (ns t))))"
    "\<forall>s. isTerminal s \<longrightarrow> V st' s = 0"
    "piEvalSweepsLeft st' = piEvalSweepsLeft ?st0 - 1"
    "piMode st' = EVAL \<longleftrightarrow> 0 < piEvalSweepsLeft st'"
    by blast
  have s03: "(0, 3) \<in> set allStates" "\<not> isTerminal (0, 3)" "isTerminal (0, 4)"
    by (simp_all add: allStates_iff isTerminal_iff isWall_iff inBounds_def NROWS_def NCOLS_def)
  have pr: "piPolicy ?st0 (0, 3) = Some R" using s03 by (simp add: resetAll_eq)
  from st'(2) s03 pr have "V st' (0, 3) = (\<Sum>t\<leftarrow>transitions exampleInputs (0, 3) R.
                          p t * (r t + gamma exampleInputs * V ?st0 (ns t)))"
    by auto
  also have "\<dots> = 999 / 125"
    by (simp add: V_resetAll example_sel transitions_def ACTIONS_def nextStateDet_def
          isTerminal_iff isWall_iff inBounds_def NROWS_def NCOLS_def reward_def TERMINALS_def Let_def)
  finally have v: "V st' (0, 3) = 999 / 125" .
  have v4: "V st' (0, 4) = 0" using st'(3) s03(3) by blast
  have n: "piEvalSweepsLeft st' = 9" using st'(4) by (simp add: reset_fields)
  have m: "piMode st' = EVAL" using st'(5) n by simp
  from re ev st'(1) v v4 n m show ?thesis by blast
qed

subsection \<open>C4: what happens at and after a stable improvement\<close>

text \<open>
  Claim C4, as amended. In a reachable state in the improving phase, below the
  iteration cap, a step replaces the working policy by the greedy one, leaves the value
  table as it is and returns to the evaluating phase with the counter at 10. When no
  action has changed, the status is "Converged (policy stable)" and \<^verbatim>\<open>running\<close> is
  cleared, so that a run loop in progress ends with this step; otherwise the status is
  "PI: improved, evaluating..." and \<^verbatim>\<open>running\<close> is kept. \<^verbatim>\<open>doOneStep\<close> has no guard for
  convergence: below the cap, the next call performs an evaluation sweep and brings
  the counter to 9.
\<close>

theorem PI_improvement_step:
  assumes "reachable st" and "algo inp = PI" and "int (iter st) < maxIters inp"
    and "piMode st = IMPROVE"
  shows "\<exists>st'. doOneStep inp st = Inr st'
           \<and> piPolicy st' = improveF inp (V st) (piPolicy st)
           \<and> V st' = V st \<and> piMode st' = EVAL \<and> piEvalSweepsLeft st' = 10
           \<and> (piPolicy st' = piPolicy st \<longrightarrow>
                 status st' = ConvergedPolicy \<and> \<not> running st'
                 \<and> (running st \<longrightarrow> runWhile inp st = Inr st'))
           \<and> (piPolicy st' \<noteq> piPolicy st \<longrightarrow> status st' = PIImproved \<and> running st' = running st)
           \<and> (int (iter st') < maxIters inp \<longrightarrow>
                 (\<exists>st''. doOneStep inp st' = Inr st''
                    \<and> V st'' = evalF inp (piPolicy st') (V st')
                    \<and> piEvalSweepsLeft st'' = 9 \<and> iter st'' = Suc (iter st')))"
proof -
  from doOneStep_PI_IMPROVE_fields [OF assms(2,3,4)]
  obtain st' where st': "doOneStep inp st = Inr st'"
    "piPolicy st' = improveF inp (V st) (piPolicy st)"
    "V st' = V st" "piMode st' = EVAL" "piEvalSweepsLeft st' = 10"
    "iter st' = Suc (iter st)"
    "status st' = (if improveF inp (V st) (piPolicy st) = piPolicy st
                   then ConvergedPolicy else PIImproved)"
    "running st' = (if improveF inp (V st) (piPolicy st) = piPolicy st
                    then False else running st)"
    by blast
  have a: "piPolicy st' = piPolicy st \<longrightarrow>
             status st' = ConvergedPolicy \<and> \<not> running st'
             \<and> (running st \<longrightarrow> runWhile inp st = Inr st')"
  proof (intro impI conjI)
    assume eq: "piPolicy st' = piPolicy st"
    then have stab: "improveF inp (V st) (piPolicy st) = piPolicy st" using st'(2) by simp
    show c: "status st' = ConvergedPolicy" using st'(7) stab by simp
    show r: "\<not> running st'" using st'(8) stab by simp
    assume run: "running st"
    have after: "afterStep inp st' = st'"
      using c r assms(2) by (simp add: afterStep_def running_update_same)
    have "runWhile inp st = runWhile inp (afterStep inp st')"
      using run assms(3) st'(1) by (subst runWhile.simps) simp
    also have "\<dots> = Inr st'"
      using r by (subst runWhile.simps) (simp add: after)
    finally show "runWhile inp st = Inr st'" .
  qed
  have b: "piPolicy st' \<noteq> piPolicy st \<longrightarrow> status st' = PIImproved \<and> running st' = running st"
    using st'(2,7,8) by auto
  have c: "int (iter st') < maxIters inp \<longrightarrow>
                 (\<exists>st''. doOneStep inp st' = Inr st''
                    \<and> V st'' = evalF inp (piPolicy st') (V st')
                    \<and> piEvalSweepsLeft st'' = 9 \<and> iter st'' = Suc (iter st'))"
  proof
    assume lt: "int (iter st') < maxIters inp"
    have "reachable st'" using assms(1) st'(1) by (rule reachable_step)
    then have "wellFormed st'" by (rule reachable_wellFormed)
    then have pol: "\<forall>s\<in>set allStates. \<not> isTerminal s \<longrightarrow> piPolicy st' s \<noteq> None"
      by (simp add: wellFormed_def)
    from doOneStep_PI_EVAL_fields [OF assms(2) lt st'(4) pol]
    show "\<exists>st''. doOneStep inp st' = Inr st''
                    \<and> V st'' = evalF inp (piPolicy st') (V st')
                    \<and> piEvalSweepsLeft st'' = 9 \<and> iter st'' = Suc (iter st')"
      using st'(5) by auto
  qed
  from st'(1,2,3,4,5) a b c show ?thesis by blast
qed

theorem PI_improvement_step_witness:
  "reachable (projr (steps (replicate 10 uniformSlipInputs) (resetAll loadState)))
   \<and> algo uniformSlipInputs = PI
   \<and> int (iter (projr (steps (replicate 10 uniformSlipInputs) (resetAll loadState))))
        < maxIters uniformSlipInputs
   \<and> piMode (projr (steps (replicate 10 uniformSlipInputs) (resetAll loadState))) = IMPROVE
   \<and> (\<exists>st'. doOneStep uniformSlipInputs
               (projr (steps (replicate 10 uniformSlipInputs) (resetAll loadState))) = Inr st'
         \<and> V st' = V (projr (steps (replicate 10 uniformSlipInputs) (resetAll loadState)))
         \<and> piMode st' = EVAL \<and> piEvalSweepsLeft st' = 10)"
proof -
  from uniformSlip_ten obtain st10 where
    st10: "steps (replicate 10 uniformSlipInputs) (resetAll loadState) = Inr st10"
      "reachable st10" "piMode st10 = IMPROVE" "iter st10 = 10" by blast
  have pr: "projr (steps (replicate 10 uniformSlipInputs) (resetAll loadState)) = st10"
    by (simp add: st10(1))
  have lt: "int (iter st10) < maxIters uniformSlipInputs"
    by (simp add: st10(4) uniformSlip_sel)
  from PI_improvement_step [OF st10(2) uniformSlip_sel(1) lt st10(3)]
  obtain st' where "doOneStep uniformSlipInputs st10 = Inr st'" "V st' = V st10"
    "piMode st' = EVAL" "piEvalSweepsLeft st' = 10" by blast
  then show ?thesis unfolding pr using st10 lt by (auto simp: uniformSlip_sel)
qed

text \<open>
  Claim C4 as stated fails. With slip \<open>3/4\<close> and discount 1 the 22nd step from reset is
  an improvement that changes nothing, and the status is "Converged (policy stable)".
  The 23rd step is not held back: it performs a sweep that changes the value of
  \<open>(0, 0)\<close>, takes the counter from 10 to 9 and the iteration counter to 23.
\<close>

theorem converged_step_still_sweeps:
  "statusAfter (steps (replicate 22 uniformSlipInputs) (resetAll loadState)) = Some ConvergedPolicy
   \<and> iterAfter (steps (replicate 22 uniformSlipInputs) (resetAll loadState)) = Some 22
   \<and> sweepsLeftAfter (steps (replicate 22 uniformSlipInputs) (resetAll loadState)) = Some 10
   \<and> valueAfter (steps (replicate 22 uniformSlipInputs) (resetAll loadState)) (0, 0)
        = Some (405354209155 / 274877906944)
   \<and> statusAfter (steps (replicate 23 uniformSlipInputs) (resetAll loadState)) = Some (RunningPIStep EVAL)
   \<and> iterAfter (steps (replicate 23 uniformSlipInputs) (resetAll loadState)) = Some 23
   \<and> sweepsLeftAfter (steps (replicate 23 uniformSlipInputs) (resetAll loadState)) = Some 9
   \<and> valueAfter (steps (replicate 23 uniformSlipInputs) (resetAll loadState)) (0, 0)
        = Some (1676413799405 / 1099511627776)"
proof -
  from uniformSlip_run obtain st22 st23 where
    r: "steps (replicate 22 uniformSlipInputs) (resetAll loadState) = Inr st22"
       "steps (replicate 23 uniformSlipInputs) (resetAll loadState) = Inr st23"
    and f: "status st22 = ConvergedPolicy" "iter st22 = 22" "piEvalSweepsLeft st22 = 10"
       "V st22 = tabOf 0 uniformSlipT21"
       "V st23 = tabOf 0 (evalTab uniformSlipInputs allUp uniformSlipT21)"
       "iter st23 = 23" "piEvalSweepsLeft st23 = 9" "status st23 = RunningPIStep EVAL"
    by blast
  show ?thesis
    by (simp add: r statusAfter_def iterAfter_def sweepsLeftAfter_def valueAfter_def f
          uniformSlip_values)
qed

subsection \<open>C5: greedy tie-breaking\<close>

text \<open>
  Claim C5. Policy extraction and the improvement sweep should select the first action,
  in the order U, D, L, R, whose Q-value is at least that of every other action. The
  lemma \<open>greedy_above_sentinel\<close> shows this for both wherever some Q-value exceeds
  \<^verbatim>\<open>-1e9\<close>, and \<open>greedy_terminal\<close> and \<open>improveF_terminal\<close> cover the terminal states. It
  fails below the sentinel: with a step reward of \<open>- 2000000000\<close>, after the first sweep
  from reset the Q-values at \<open>(0, 2)\<close> are \<open>- 3000000000\<close> for U, D and L and
  \<open>- 1999999990\<close> for R, so the first maximiser is R, and the published policy is U.
  In Policy Iteration with that step reward and discount 0, the four Q-values at \<open>(2, 0)\<close>
  in the improvement of step 11 are all \<open>- 2000000000\<close>, so the first maximiser is U, and
  the working policy keeps its old action R.
\<close>

theorem greedy_sentinel_default:
  "(0, 2) \<in> set allStates \<and> \<not> isTerminal (0, 2)
   \<and> map (qValue hugePenaltyInputs (V (valueIterationSweep hugePenaltyInputs (resetAll loadState))) (0, 2)) ACTIONS
       = [- 3000000000, - 3000000000, - 3000000000, - 1999999990]
   \<and> firstMaximiser (qValue hugePenaltyInputs (V (valueIterationSweep hugePenaltyInputs (resetAll loadState))) (0, 2))
       = Some R
   \<and> policy (valueIterationSweep hugePenaltyInputs (resetAll loadState)) (0, 2) = Some U
   \<and> (2, 0) \<in> set allStates \<and> \<not> isTerminal (2, 0)
   \<and> map (qValue hugePenaltyPIInputs
             (V (projr (steps (replicate 10 hugePenaltyPIInputs) (resetAll loadState)))) (2, 0)) ACTIONS
       = [- 2000000000, - 2000000000, - 2000000000, - 2000000000]
   \<and> firstMaximiser (qValue hugePenaltyPIInputs
             (V (projr (steps (replicate 10 hugePenaltyPIInputs) (resetAll loadState)))) (2, 0))
       = Some U
   \<and> workingPolicyAfter (steps (replicate 11 hugePenaltyPIInputs) (resetAll loadState)) (2, 0)
       = Some (Some R)"
proof -
  let ?v1 = "sweepF hugePenaltyInputs (\<lambda>_. 0)"
  have sel: "gamma hugePenaltyInputs = 1" "slip hugePenaltyInputs = 0"
    "stepReward hugePenaltyInputs = - 2000000000"
    by (simp_all add: hugePenaltyInputs_def)
  have v1: "?v1 (0, 2) = - 1000000000" "?v1 (0, 1) = - 1000000000" "?v1 (0, 3) = 10"
    by (simp_all add: sweepF_def sel grid_evals)
  have q: "qValue hugePenaltyInputs ?v1 (0, 2) U = - 3000000000"
          "qValue hugePenaltyInputs ?v1 (0, 2) D = - 3000000000"
          "qValue hugePenaltyInputs ?v1 (0, 2) L = - 3000000000"
          "qValue hugePenaltyInputs ?v1 (0, 2) R = - 1999999990"
    by (simp_all add: v1 qValue_def transitions_def ACTIONS_def nextStateDet_def isTerminal_iff
          isWall_iff inBounds_def NROWS_def NCOLS_def reward_def TERMINALS_def Let_def sel)
  have s: "(0, 2) \<in> set allStates \<and> \<not> isTerminal (0, 2)"
    by (simp add: allStates_iff isTerminal_iff isWall_iff inBounds_def NROWS_def NCOLS_def)
  have vi: "map (qValue hugePenaltyInputs (V (valueIterationSweep hugePenaltyInputs (resetAll loadState))) (0, 2)) ACTIONS
       = [- 3000000000, - 3000000000, - 3000000000, - 1999999990]
   \<and> firstMaximiser (qValue hugePenaltyInputs (V (valueIterationSweep hugePenaltyInputs (resetAll loadState))) (0, 2))
       = Some R
   \<and> policy (valueIterationSweep hugePenaltyInputs (resetAll loadState)) (0, 2) = Some U"
    using s
    by (simp add: V_valueIterationSweep policy_valueIterationSweep V_resetAll
          greedyPolicyFromV_eq firstMaximiser_def q ACTIONS_def)
  from hugePenaltyPI_eleven obtain st10 st11 where
    r: "steps (replicate 10 hugePenaltyPIInputs) (resetAll loadState) = Inr st10"
       "steps (replicate 11 hugePenaltyPIInputs) (resetAll loadState) = Inr st11"
    and p: "piPolicy st11 (2, 0) = Some R" by blast
  have pi: "map (qValue hugePenaltyPIInputs
             (V (projr (steps (replicate 10 hugePenaltyPIInputs) (resetAll loadState)))) (2, 0)) ACTIONS
       = [- 2000000000, - 2000000000, - 2000000000, - 2000000000]
   \<and> firstMaximiser (qValue hugePenaltyPIInputs
             (V (projr (steps (replicate 10 hugePenaltyPIInputs) (resetAll loadState)))) (2, 0))
       = Some U
   \<and> workingPolicyAfter (steps (replicate 11 hugePenaltyPIInputs) (resetAll loadState)) (2, 0)
       = Some (Some R)"
    by (simp add: r p workingPolicyAfter_def firstMaximiser_def ACTIONS_def hugePenaltyPI_q)
  from s vi nonterminal_allStates pi show ?thesis by blast
qed

subsection \<open>C6: terminal absorption\<close>

text \<open>
  Claim C6. From a terminal state every action has the single outcome
  (probability 1, the same state, reward 0), and the deterministic move stays there.
\<close>

theorem terminal_absorption:
  "isTerminal s \<Longrightarrow> transitions inp s a = [\<lparr>p = 1, ns = s, r = 0\<rparr>] \<and> nextStateDet s a = s"
  by (simp add: transitions_def nextStateDet_def)

theorem terminal_absorption_witness:
  "isTerminal (4, 4) \<and> transitions exampleInputs (4, 4) L = [\<lparr>p = 1, ns = (4, 4), r = 0\<rparr>]
   \<and> nextStateDet (4, 4) L = (4, 4)"
proof -
  have h: "isTerminal (4, 4)" by (simp add: isTerminal_iff)
  show ?thesis using h terminal_absorption [OF h, of exampleInputs L] by simp
qed

subsection \<open>C7: the max-iteration guard\<close>

text \<open>
  Claim C7, as amended. With the cap at \<open>K\<close>, \<open>K\<close> calls of \<^verbatim>\<open>doOneStep\<close> from reset all
  succeed and leave the iteration counter at \<open>K\<close>; the status is then still that of the
  last sweep. Every further call returns the same state with the status
  "Reached max iterations": value table, policy and counter are unchanged.
\<close>

theorem max_iteration_guard:
  assumes "maxIters inp = int K"
  shows "\<exists>stK. steps (replicate K inp) (resetAll st) = Inr stK
           \<and> iter stK = K
           \<and> (0 < K \<longrightarrow> status stK \<noteq> ReachedMax)
           \<and> (\<forall>m. steps (replicate (Suc m) inp) stK = Inr (stK\<lparr>status := ReachedMax\<rparr>))"
proof -
  have wf: "wellFormed (resetAll st)" by (rule wellFormed_resetAll)
  have i0: "iter (resetAll st) = 0" by (simp add: resetAll_eq)
  have "int (iter (resetAll st)) + int K \<le> maxIters inp" using assms i0 by simp
  from steps_below_cap [OF wf this]
  obtain stK where stK: "steps (replicate K inp) (resetAll st) = Inr stK"
    "iter stK = iter (resetAll st) + K" "0 < K \<longrightarrow> status stK \<noteq> ReachedMax" by blast
  have it: "iter stK = K" using stK(2) i0 by simp
  then have "int (iter stK) \<ge> maxIters inp" using assms by simp
  then have "\<forall>m. steps (replicate (Suc m) inp) stK = Inr (stK\<lparr>status := ReachedMax\<rparr>)"
    using steps_guard by blast
  with stK(1,3) it show ?thesis by blast
qed

theorem max_iteration_guard_witness:
  "maxIters capOneInputs = int 1
   \<and> (\<exists>stK. steps (replicate 1 capOneInputs) (resetAll loadState) = Inr stK
         \<and> iter stK = 1 \<and> status stK \<noteq> ReachedMax
         \<and> steps (replicate (Suc 0) capOneInputs) stK = Inr (stK\<lparr>status := ReachedMax\<rparr>)
         \<and> steps (replicate (Suc 4) capOneInputs) stK = Inr (stK\<lparr>status := ReachedMax\<rparr>))"
proof -
  have h: "maxIters capOneInputs = int 1" by (simp add: capOneInputs_def)
  from max_iteration_guard [OF h, of loadState]
  obtain stK where k: "steps (replicate 1 capOneInputs) (resetAll loadState) = Inr stK"
    "iter stK = 1" "0 < (1::nat) \<longrightarrow> status stK \<noteq> ReachedMax"
    "\<forall>m. steps (replicate (Suc m) capOneInputs) stK = Inr (stK\<lparr>status := ReachedMax\<rparr>)"
    by (elim exE conjE)
  have "status stK \<noteq> ReachedMax" using k(3) by simp
  moreover have "steps (replicate (Suc 0) capOneInputs) stK = Inr (stK\<lparr>status := ReachedMax\<rparr>)"
    "steps (replicate (Suc 4) capOneInputs) stK = Inr (stK\<lparr>status := ReachedMax\<rparr>)"
    using k(4) by blast+
  ultimately show ?thesis using h k(1,2) by blast
qed

text \<open>
  Claim C7 as stated fails: with the cap at 1, after one call the status is
  "Running PI step (EVAL)..."; it is "Reached max iterations" only after the second.
\<close>

theorem status_after_cap_calls:
  "maxIters capOneInputs = 1
   \<and> iterAfter (steps (replicate 1 capOneInputs) (resetAll loadState)) = Some 1
   \<and> statusAfter (steps (replicate 1 capOneInputs) (resetAll loadState)) = Some (RunningPIStep EVAL)
   \<and> statusAfter (steps (replicate 2 capOneInputs) (resetAll loadState)) = Some ReachedMax"
proof -
  let ?st0 = "resetAll loadState"
  have sel: "algo capOneInputs = PI" "maxIters capOneInputs = 1"
    by (simp_all add: capOneInputs_def)
  have lt0: "int (iter ?st0) < maxIters capOneInputs" by (simp add: reset_fields sel)
  from doOneStep_PI_EVAL_fields [OF sel(1) lt0 reset_fields(2) reset_policy_Some]
  obtain st1 where st1: "doOneStep capOneInputs ?st0 = Inr st1"
    "iter st1 = Suc (iter ?st0)" "status st1 = RunningPIStep EVAL" by blast
  have it: "iter st1 = 1" using st1(2) by (simp add: reset_fields)
  have g: "doOneStep capOneInputs st1 = Inr (st1\<lparr>status := ReachedMax\<rparr>)"
    by (rule doOneStep_guard) (simp add: it sel)
  have r2: "replicate 2 capOneInputs = [capOneInputs, capOneInputs]"
    by (simp add: numeral_2_eq_2)
  show ?thesis
    by (simp add: sel st1(1,3) it g r2 iterAfter_def statusAfter_def)
qed

subsection \<open>C8: invalid configurations\<close>




subsection \<open>C9: when configuration values take effect\<close>




subsection \<open>C10: Value Iteration publishes the greedy policy at every step\<close>

text \<open>
  Claim C10. After a Value Iteration step the published policy should be the greedy
  policy, with the first-in-order tie-break, of the value table that the same sweep
  produced. With a step reward of \<open>- 2000000000\<close>, discount 1 and no slip, one step from
  reset leaves the Q-values \<open>- 3000000000\<close> for U, D and L and \<open>- 1999999990\<close> for R at
  \<open>(0, 2)\<close>, computed from the table of that sweep. The first maximiser is R; the policy
  on the page has U there, the initial value of \<^verbatim>\<open>bestA\<close>, because no Q-value exceeds the
  initial \<^verbatim>\<open>bestQ = -1e9\<close>.
\<close>

theorem VI_step_sentinel_policy:
  "iterAfter (steps [hugePenaltyInputs] (resetAll loadState)) = Some 1
   \<and> map (qValue hugePenaltyInputs (V (projr (steps [hugePenaltyInputs] (resetAll loadState)))) (0, 2))
         ACTIONS
       = [- 3000000000, - 3000000000, - 3000000000, - 1999999990]
   \<and> firstMaximiser
         (qValue hugePenaltyInputs (V (projr (steps [hugePenaltyInputs] (resetAll loadState)))) (0, 2))
       = Some R
   \<and> policyAfter (steps [hugePenaltyInputs] (resetAll loadState)) (0, 2) = Some (Some U)"
proof -
  let ?inp = hugePenaltyInputs
  let ?st0 = "resetAll loadState"
  let ?v1 = "sweepF ?inp (\<lambda>_. 0)"
  have sel: "algo ?inp = VI" "gamma ?inp = 1" "slip ?inp = 0" "stepReward ?inp = - 2000000000"
    "maxIters ?inp = 100"
    by (simp_all add: hugePenaltyInputs_def)
  have lt0: "int (iter ?st0) < maxIters ?inp" by (simp add: reset_fields sel)
  obtain st1 where st1: "doOneStep ?inp ?st0 = Inr st1"
    using doOneStep_VI [OF sel(1) lt0] by blast
  note f = doOneStep_VI_fields [OF sel(1) lt0 st1]
  have v: "V st1 = ?v1" using f(1) by (simp add: V_resetAll)
  have po: "policy st1 = greedyPolicyFromV ?inp ?v1" using f(2) by (simp add: V_resetAll)
  have it: "iter st1 = 1" using f(4) by (simp add: reset_fields)
  have v1: "?v1 (0, 2) = - 1000000000" "?v1 (0, 1) = - 1000000000" "?v1 (0, 3) = 10"
    by (simp_all add: sweepF_def sel grid_evals)
  have q: "qValue ?inp ?v1 (0, 2) U = - 3000000000"
          "qValue ?inp ?v1 (0, 2) D = - 3000000000"
          "qValue ?inp ?v1 (0, 2) L = - 3000000000"
          "qValue ?inp ?v1 (0, 2) R = - 1999999990"
    by (simp_all add: v1 qValue_def transitions_def ACTIONS_def nextStateDet_def isTerminal_iff
          isWall_iff inBounds_def NROWS_def NCOLS_def reward_def TERMINALS_def Let_def sel)
  have s: "(0, 2) \<in> set allStates \<and> \<not> isTerminal (0, 2)"
    by (simp add: allStates_iff isTerminal_iff isWall_iff inBounds_def NROWS_def NCOLS_def)
  show ?thesis
    using s
    by (simp add: st1 it v po iterAfter_def policyAfter_def greedyPolicyFromV_eq
          firstMaximiser_def q ACTIONS_def)
qed

end
